theory Spec2Isabelle
  imports Main "HOL-Library.Log_Nat"
begin

unbundle bit_operations_syntax

section \<open>JavaScript values\<close>

text \<open>
  A \<^verbatim>\<open>bigint\<close> is an \<^typ>\<open>int\<close>: unbounded, with the two's complement bit operations
  \<open>push_bit\<close> (\<^verbatim>\<open><<\<close>), \<open>drop_bit\<close> (\<^verbatim>\<open>>>\<close>), \<open>OR\<close> and \<open>take_bit\<close>
  (\<^verbatim>\<open>BigInt.asUintN\<close>).

  A \<^verbatim>\<open>number\<close> is a double: a finite value, carried here as a rational, or \<^verbatim>\<open>NaN\<close> or
  one of the two infinities. Negative zero is identified with zero; it behaves as zero
  in every operation this program applies. The type has more finite values than there
  are doubles, which only adds inputs. Sums and differences are rounded to the nearest
  double, ties to the even mantissa, as the hardware does.

  An optional argument is an \<open>option\<close>, \<open>None\<close> standing for \<^verbatim>\<open>undefined\<close>.
\<close>

datatype number = Finite rat | NaN | PosInfinity | NegInfinity

datatype error = RangeError

subsection \<open>Rounding to a double\<close>

text \<open>
  Every finite double is an integer multiple of \<open>2^-1074\<close>, and the doubles of magnitude
  in \<open>[2^(e-1), 2^e)\<close> with \<open>e > -1022\<close> are the multiples of \<open>2^(e-53)\<close> there. So a
  value is rounded on the grid of integers after scaling it by \<open>2^1074\<close>: a scaled
  value whose integer part has \<open>b\<close> bits is rounded to a multiple of \<open>2^(b-53)\<close>, and
  to an integer when \<open>b \<le> 53\<close> (the subnormal doubles and the lowest binade). A result of
  magnitude \<open>2^1024\<close> or more is an infinity.
\<close>

definition roundHalfEven :: "rat \<Rightarrow> int" where
  "roundHalfEven x =
     (let f = \<lfloor>x\<rfloor>; d = x - of_int f
      in if d < 1 / 2 then f
         else if 1 / 2 < d then f + 1
         else if even f then f else f + 1)"

definition SUBNORMAL_BITS :: nat where
  "SUBNORMAL_BITS = 1074"

definition quantum :: "rat \<Rightarrow> int" where
  "quantum y = 2 ^ nat (bitlen \<lfloor>\<bar>y\<bar>\<rfloor> - 53)"

definition roundToGrid :: "rat \<Rightarrow> rat" where
  "roundToGrid y = of_int (quantum y * roundHalfEven (y / of_int (quantum y)))"

definition roundDoubleValue :: "rat \<Rightarrow> rat" where
  "roundDoubleValue x = roundToGrid (x * 2 ^ SUBNORMAL_BITS) / 2 ^ SUBNORMAL_BITS"

definition roundDouble :: "rat \<Rightarrow> number" where
  "roundDouble x =
     (let r = roundDoubleValue x
      in if 2 ^ 1024 \<le> r then PosInfinity
         else if r \<le> - (2 ^ 1024) then NegInfinity
         else Finite r)"

subsection \<open>Operators and conversions\<close>

text \<open>\<^verbatim>\<open>a + b\<close> and \<^verbatim>\<open>a - b\<close> on numbers.\<close>

fun number_add :: "number \<Rightarrow> number \<Rightarrow> number" where
  "number_add (Finite a) (Finite b) = roundDouble (a + b)"
| "number_add NaN _ = NaN"
| "number_add _ NaN = NaN"
| "number_add PosInfinity NegInfinity = NaN"
| "number_add NegInfinity PosInfinity = NaN"
| "number_add PosInfinity _ = PosInfinity"
| "number_add NegInfinity _ = NegInfinity"
| "number_add _ PosInfinity = PosInfinity"
| "number_add _ NegInfinity = NegInfinity"

fun number_neg :: "number \<Rightarrow> number" where
  "number_neg (Finite a) = Finite (- a)"
| "number_neg NaN = NaN"
| "number_neg PosInfinity = NegInfinity"
| "number_neg NegInfinity = PosInfinity"

definition number_sub :: "number \<Rightarrow> number \<Rightarrow> number" where
  "number_sub a b = number_add a (number_neg b)"

text \<open>
  \<^verbatim>\<open>Number(b)\<close> of a bigint is the nearest double. \<^verbatim>\<open>BigInt(x)\<close> of a number throws a
  \<^verbatim>\<open>RangeError\<close> unless \<open>x\<close> is a finite integer.
\<close>

definition Number :: "int \<Rightarrow> number" where
  "Number b = roundDouble (of_int b)"

fun BigInt :: "number \<Rightarrow> error + int" where
  "BigInt (Finite x) = (if of_int \<lfloor>x\<rfloor> = x then Inr \<lfloor>x\<rfloor> else Inl RangeError)"
| "BigInt NaN = Inl RangeError"
| "BigInt PosInfinity = Inl RangeError"
| "BigInt NegInfinity = Inl RangeError"

text \<open>
  \<^verbatim>\<open>!x\<close> on an optional number is true for \<^verbatim>\<open>undefined\<close>, for zero and for \<^verbatim>\<open>NaN\<close>.
\<close>

fun falsy :: "number option \<Rightarrow> bool" where
  "falsy None = True"
| "falsy (Some (Finite x)) = (x = 0)"
| "falsy (Some NaN) = True"
| "falsy (Some PosInfinity) = False"
| "falsy (Some NegInfinity) = False"

text \<open>
  \<^verbatim>\<open>a & b\<close> on numbers converts both operands to signed 32-bit integers first: a finite
  value is truncated towards zero and reduced modulo \<open>2^32\<close>, anything else is 0. The
  result is a signed 32-bit integer.
\<close>

fun ToInt32 :: "number \<Rightarrow> int" where
  "ToInt32 (Finite x) = signed_take_bit 31 (if 0 \<le> x then \<lfloor>x\<rfloor> else \<lceil>x\<rceil>)"
| "ToInt32 NaN = 0"
| "ToInt32 PosInfinity = 0"
| "ToInt32 NegInfinity = 0"

definition number_and :: "number \<Rightarrow> number \<Rightarrow> int" where
  "number_and a b = signed_take_bit 31 (ToInt32 a AND ToInt32 b)"

section \<open>The Snowflake identifier generator (src/src/Snowflake.ts)\<close>

subsection \<open>Constants\<close>

definition TOTAL_BITS :: nat where
  "TOTAL_BITS = 64"

definition EPOCH_BITS :: nat where
  "EPOCH_BITS = 42"

definition NODE_ID_BITS :: nat where
  "NODE_ID_BITS = 12"

definition SEQUENCE_BITS :: nat where
  "SEQUENCE_BITS = 10"

definition maxNodeID :: int where
  "maxNodeID = push_bit NODE_ID_BITS 1 - 1"

definition maxSequence :: int where
  "maxSequence = push_bit SEQUENCE_BITS 1 - 1"

subsection \<open>The environment\<close>

text \<open>
  Two values come from the process the class is loaded in: the static field
  \<^verbatim>\<open>defaultTimeOffset = new Date("01-01-2023").valueOf()\<close>, the time value of a local
  midnight and so an integer that depends on the time zone of the host, and the number
  that the constructor derives from host name and process id,
  \<^verbatim>\<open>Number(FNV.compress(12, FNV.update(machineIdent).value()))\<close>, an integer computed by
  an imported library. Both are fields of an environment record that the functions take
  as a parameter.
\<close>

record env =
  defaultTimeOffset :: int
  machineNodeID :: int

text \<open>
  The wall clock: \<open>clk k\<close> is what the \<open>k\<close>-th evaluation of \<^verbatim>\<open>Date.now()\<close> returns,
  counting from 0 over the whole run. \<^verbatim>\<open>Date.now()\<close> returns a time value, an integer
  number of milliseconds. The functions that read the clock take the number of readings
  made so far and return the number made after them.
\<close>

type_synonym clock = "nat \<Rightarrow> int"

subsection \<open>The generator object\<close>

text \<open>
  \<^verbatim>\<open>nodeID\<close> is the result of an \<^verbatim>\<open>&\<close>, always an integer; \<^verbatim>\<open>timeOffset\<close> is whatever
  number the caller passed.
\<close>

record snowflake =
  nodeID :: int
  timeOffset :: number
  lastTimestamp :: int
  lastSequence :: int

text \<open>The private constructor, lines 50 to 65.\<close>

definition new_Snowflake :: "env \<Rightarrow> number option \<Rightarrow> number option \<Rightarrow> snowflake" where
  "new_Snowflake E nodeID_arg timeOffset_arg =
     (let nodeID1 = (if falsy nodeID_arg then Finite (of_int (machineNodeID E))
                     else (case nodeID_arg of
                             Some n \<Rightarrow> n
                           | None \<Rightarrow> Finite (of_int (machineNodeID E))));
          timeOffset1 = (if falsy timeOffset_arg then Finite (of_int (defaultTimeOffset E))
                         else (case timeOffset_arg of
                                 Some t \<Rightarrow> t
                               | None \<Rightarrow> Finite (of_int (defaultTimeOffset E))))
      in \<lparr> nodeID = number_and nodeID1 (Number maxNodeID),
           timeOffset = timeOffset1,
           lastTimestamp = 0,
           lastSequence = - 1 \<rparr>)"

text \<open>
  \<^verbatim>\<open>Snowflake.get\<close>, lines 67 to 74. The argument is a
  \<^verbatim>\<open>Partial<SnowflakeOpts>\<close> that may be absent altogether. The static field
  \<^verbatim>\<open>Snowflake.instance\<close> holds the one object there is, so the model keeps the object
  itself in the field: \<open>None\<close> before the first call, the current state of the object
  afterwards. \<open>get\<close> returns the object and the new content of the field.
\<close>

record SnowflakeOpts =
  opts_nodeID :: "number option"
  opts_timeOffset :: "number option"

definition get :: "env \<Rightarrow> SnowflakeOpts option \<Rightarrow> snowflake option \<Rightarrow> snowflake \<times> snowflake option" where
  "get E opts inst =
     (case inst of
        Some s \<Rightarrow> (s, inst)
      | None \<Rightarrow>
          (let s = new_Snowflake E
                     (case opts of None \<Rightarrow> None | Some r \<Rightarrow> opts_nodeID r)
                     (case opts of None \<Rightarrow> None | Some r \<Rightarrow> opts_timeOffset r)
           in (s, Some s)))"

subsection \<open>Generating identifiers\<close>

definition TIMESTAMP_LEFT_SHIFT :: nat where
  "TIMESTAMP_LEFT_SHIFT = NODE_ID_BITS + SEQUENCE_BITS"

definition NODE_ID_SHIFT :: nat where
  "NODE_ID_SHIFT = SEQUENCE_BITS"

text \<open>The expression that \<^verbatim>\<open>genNewID\<close> returns, lines 108 to 110.\<close>

definition composeID :: "int \<Rightarrow> int \<Rightarrow> int \<Rightarrow> int" where
  "composeID timestamp node sequence =
     push_bit TIMESTAMP_LEFT_SHIFT timestamp OR push_bit NODE_ID_SHIFT node OR sequence"

text \<open>
  The expression \<^verbatim>\<open>BigInt(Date.now() - this.timeOffset)\<close> of lines 84 and 96, at the
  \<open>k\<close>-th clock reading: the difference is a double, and the conversion throws when it
  is not a finite integer.
\<close>

definition currentTimestamp :: "clock \<Rightarrow> snowflake \<Rightarrow> nat \<Rightarrow> error + int" where
  "currentTimestamp clk s k = BigInt (number_sub (Finite (of_int (clk k))) (timeOffset s))"

text \<open>
  The loop of lines 94 to 97: sleep, read the clock, and go on while the timestamp is
  still \<^verbatim>\<open>this.lastTimestamp\<close>. The body runs at least once. A loop that never ends has
  the value \<open>None\<close>; an exception thrown by the conversion ends it with \<open>Inl\<close>. The
  sleep itself has no effect on the state; the time that passes shows in the next clock
  reading only.
\<close>

partial_function (option) waitLoop :: "clock \<Rightarrow> snowflake \<Rightarrow> nat \<Rightarrow> (error + int \<times> nat) option" where
  "waitLoop clk s k =
     (case currentTimestamp clk s k of
        Inl e \<Rightarrow> Some (Inl e)
      | Inr timestamp \<Rightarrow>
          if timestamp = lastTimestamp s then waitLoop clk s (Suc k)
          else Some (Inr (timestamp, Suc k)))"

text \<open>
  \<^verbatim>\<open>genNewID\<close>, lines 80 to 111, for a call that runs to its end before any other call on
  the same object starts. A call that returns gives \<open>Inr\<close> of the identifier, the object
  after the call and the number of clock readings made. A call that throws gives \<open>Inl\<close>;
  the two assignments of lines 105 and 106 come after both conversions, so the object is
  then as it was. A call whose wait never ends has the value \<open>None\<close>. There is no
  \<^verbatim>\<open>throw\<close> statement in the method and no test of the sign of the timestamp.
\<close>

definition genNewID :: "clock \<Rightarrow> snowflake \<Rightarrow> nat \<Rightarrow> (error + int \<times> snowflake \<times> nat) option" where
  "genNewID clk s k =
     (case currentTimestamp clk s k of
        Inl e \<Rightarrow> Some (Inl e)
      | Inr timestamp \<Rightarrow>
          (let sequence = lastSequence s;
               r = (if timestamp = lastTimestamp s then
                      (let sequence1 = sequence + 1
                       in if sequence1 > maxSequence then
                            (case waitLoop clk s (Suc k) of
                               None \<Rightarrow> None
                             | Some (Inl e) \<Rightarrow> Some (Inl e)
                             | Some (Inr (timestamp1, k1)) \<Rightarrow> Some (Inr (timestamp1, 0, k1)))
                          else Some (Inr (timestamp, sequence1, Suc k)))
                    else Some (Inr (timestamp, 0, Suc k)))
           in case r of
                None \<Rightarrow> None
              | Some (Inl e) \<Rightarrow> Some (Inl e)
              | Some (Inr (timestamp2, sequence2, k2)) \<Rightarrow>
                  Some (Inr (composeID timestamp2 (nodeID s) sequence2,
                             s\<lparr> lastTimestamp := timestamp2, lastSequence := sequence2 \<rparr>,
                             k2))))"

text \<open>
  Calls made one after the other on the same object, each awaited before the next, as in
  the loop of the test \<^verbatim>\<open>gen monotonic IDs\<close>. An exception ends the loop.
\<close>

fun genMany :: "clock \<Rightarrow> nat \<Rightarrow> snowflake \<Rightarrow> nat \<Rightarrow> (error + int list \<times> snowflake \<times> nat) option" where
  "genMany clk 0 s k = Some (Inr ([], s, k))"
| "genMany clk (Suc n) s k =
     (case genNewID clk s k of
        None \<Rightarrow> None
      | Some (Inl e) \<Rightarrow> Some (Inl e)
      | Some (Inr (i, s1, k1)) \<Rightarrow>
          (case genMany clk n s1 k1 of
             None \<Rightarrow> None
           | Some (Inl e) \<Rightarrow> Some (Inl e)
           | Some (Inr (ids, s2, k2)) \<Rightarrow> Some (Inr (i # ids, s2, k2))))"

text \<open>
  The states an object can be in: as the constructor leaves it, or after a call of
  \<^verbatim>\<open>genNewID\<close> that returned.
\<close>

inductive reachable :: "env \<Rightarrow> clock \<Rightarrow> snowflake \<Rightarrow> bool" for E :: env and clk :: clock where
  fresh: "reachable E clk (new_Snowflake E n t)"
| step: "reachable E clk s \<Longrightarrow> genNewID clk s k = Some (Inr (i, s1, k1)) \<Longrightarrow> reachable E clk s1"

subsection \<open>Decoding identifiers\<close>

text \<open>
  Lines 113 to 142. \<^verbatim>\<open>BigInt.asUintN(n, x)\<close> is \<open>take_bit n x\<close>. The timestamp decoder
  returns the double sum \<^verbatim>\<open>Number(timestamp) + timeOffset\<close>. The other two return
  \<^verbatim>\<open>Number\<close> of a value below \<open>2^12\<close>, which is that integer.
\<close>

definition getTimestampFromID :: "env \<Rightarrow> int \<Rightarrow> number option \<Rightarrow> number" where
  "getTimestampFromID E i timeOffset_arg =
     (let timeOffset1 = (if falsy timeOffset_arg then Finite (of_int (defaultTimeOffset E))
                         else (case timeOffset_arg of
                                 Some t \<Rightarrow> t
                               | None \<Rightarrow> Finite (of_int (defaultTimeOffset E))));
          timestamp = take_bit EPOCH_BITS (drop_bit (TOTAL_BITS - EPOCH_BITS) i)
      in number_add (Number timestamp) timeOffset1)"

definition getNodeIDFromID :: "int \<Rightarrow> int" where
  "getNodeIDFromID i =
     take_bit NODE_ID_BITS (drop_bit (EPOCH_BITS + SEQUENCE_BITS) (push_bit EPOCH_BITS i))"

definition getSequenceFromID :: "int \<Rightarrow> int" where
  "getSequenceFromID i =
     (let BITS = TOTAL_BITS - SEQUENCE_BITS
      in take_bit SEQUENCE_BITS (drop_bit BITS (push_bit BITS i)))"

subsection \<open>isMonotonic (src/src/isMonotonic.ts)\<close>

text \<open>
  \<^verbatim>\<open>array.every\<close> over the indices: the first element passes, every other one must be
  greater than the element before it.
\<close>

definition isMonotonic :: "int list \<Rightarrow> bool" where
  "isMonotonic arr =
     list_all (\<lambda>idx. if idx \<noteq> 0 then arr ! idx > arr ! (idx - 1) else True) [0..<length arr]"

subsection \<open>Values for the examples\<close>

text \<open>
  A clock that advances by one millisecond at every reading, one that advances by one
  millisecond every \<open>m\<close> readings, and one that stands still.
\<close>

definition tickClock :: "int \<Rightarrow> clock" where
  "tickClock c k = c + int k"

definition steppedClock :: "int \<Rightarrow> nat \<Rightarrow> clock" where
  "steppedClock c m k = c + int (k div m)"

definition frozenClock :: "int \<Rightarrow> clock" where
  "frozenClock c k = c"


text \<open>
  An environment: midnight of 1 January 2023 in UTC as the default epoch, and 7 as the
  number derived from the host.
\<close>

definition exampleEnv :: env where
  "exampleEnv = \<lparr> defaultTimeOffset = 1672531200000, machineNodeID = 7 \<rparr>"

section \<open>Auxiliary facts\<close>

subsection \<open>Rounding\<close>

lemma roundHalfEven_of_int [simp]: "roundHalfEven (of_int n) = n"
  by (simp add: roundHalfEven_def)

lemma roundHalfEven_0 [simp]: "roundHalfEven 0 = 0"
  by (simp add: roundHalfEven_def)

lemma roundHalfEven_minus: "roundHalfEven (- x) = - roundHalfEven x"
proof (cases "x \<in> \<int>")
  case True
  then obtain n where "x = of_int n" by (auto elim: Ints_cases)
  then have "- x = of_int (- n)" by simp
  then show ?thesis
    unfolding \<open>x = of_int n\<close> by (simp only: roundHalfEven_of_int)
next
  case False
  then have ne: "x \<noteq> of_int \<lfloor>x\<rfloor>"
    by (metis Ints_of_int)
  then have fl: "\<lfloor>- x\<rfloor> = - \<lfloor>x\<rfloor> - 1"
    by (simp add: floor_minus ceiling_altdef)
  define f where "f = \<lfloor>x\<rfloor>"
  define d where "d = x - of_int f"
  have le: "of_int \<lfloor>x\<rfloor> \<le> x"
    by (rule of_int_floor_le)
  from ne [symmetric] le have "of_int \<lfloor>x\<rfloor> < x"
    by (rule order.not_eq_order_implies_strict)
  moreover have "x < of_int \<lfloor>x\<rfloor> + 1"
    by linarith
  ultimately have d: "0 < d" "d < 1"
    unfolding d_def f_def by simp_all
  have dm: "- x - of_int (- f - 1) = 1 - d"
    by (simp add: d_def)
  show ?thesis
    unfolding roundHalfEven_def Let_def fl f_def [symmetric] dm
    unfolding d_def [symmetric]
    using d by (auto simp: algebra_simps)
qed

lemma roundHalfEven_bounds: "of_int (roundHalfEven x) \<le> x + 1 / 2 \<and> x - 1 / 2 \<le> of_int (roundHalfEven x)"
  unfolding roundHalfEven_def Let_def by (auto; linarith)

lemma roundHalfEven_floor_le: "\<lfloor>x\<rfloor> \<le> roundHalfEven x \<and> roundHalfEven x \<le> \<lfloor>x\<rfloor> + 1"
  unfolding roundHalfEven_def Let_def by auto

lemma roundHalfEven_mono:
  assumes "x \<le> y"
  shows "roundHalfEven x \<le> roundHalfEven y"
proof (cases "\<lfloor>x\<rfloor> = \<lfloor>y\<rfloor>")
  case True
  with assms have "x - of_int \<lfloor>x\<rfloor> \<le> y - of_int \<lfloor>y\<rfloor>"
    by simp
  with True show ?thesis
    unfolding roundHalfEven_def Let_def by auto
next
  case False
  with assms have "\<lfloor>x\<rfloor> < \<lfloor>y\<rfloor>"
    by (simp add: floor_mono order_less_le)
  then have "\<lfloor>x\<rfloor> + 1 \<le> \<lfloor>y\<rfloor>"
    by simp
  with roundHalfEven_floor_le [of x] roundHalfEven_floor_le [of y] show ?thesis
    by linarith
qed


lemma grid_le:
  assumes "x \<le> of_int (q * k)" and "0 < q"
  shows "q * roundHalfEven (x / of_int q) \<le> q * k"
proof -
  from assms have "x / of_int q \<le> of_int k"
    by (simp add: pos_divide_le_eq mult.commute)
  then have "roundHalfEven (x / of_int q) \<le> roundHalfEven (of_int k)"
    by (rule roundHalfEven_mono)
  then have "roundHalfEven (x / of_int q) \<le> k"
    by simp
  with assms(2) show ?thesis
    by simp
qed

lemma grid_ge:
  assumes "of_int (q * k) \<le> x" and "0 < q"
  shows "q * k \<le> q * roundHalfEven (x / of_int q)"
proof -
  from assms have "of_int k \<le> x / of_int q"
    by (simp add: pos_le_divide_eq mult.commute)
  then have "roundHalfEven (of_int k) \<le> roundHalfEven (x / of_int q)"
    by (rule roundHalfEven_mono)
  then have "k \<le> roundHalfEven (x / of_int q)"
    by simp
  with assms(2) show ?thesis
    by simp
qed

lemma quantum_pos: "0 < quantum y"
  by (simp add: quantum_def)

lemma quantum_minus: "quantum (- y) = quantum y"
  by (simp add: quantum_def)

lemma roundToGrid_minus: "roundToGrid (- y) = - roundToGrid y"
  by (simp add: roundToGrid_def quantum_minus roundHalfEven_minus)

lemma roundToGrid_nonneg:
  assumes "0 \<le> y"
  shows "0 \<le> roundToGrid y"
proof -
  have "of_int (quantum y * 0) \<le> y"
    using assms by simp
  from grid_ge [OF this quantum_pos] have "0 \<le> quantum y * roundHalfEven (y / of_int (quantum y))"
    by simp
  then have "(0::rat) \<le> of_int (quantum y * roundHalfEven (y / of_int (quantum y)))"
    by (simp only: of_int_0_le_iff)
  then show ?thesis
    by (simp only: roundToGrid_def)
qed

lemma bitlen_mono: "a \<le> b \<Longrightarrow> bitlen a \<le> bitlen b"
  by (simp add: bitlen_def floorlog_mono nat_mono)

lemma less_power_bitlen: "0 \<le> n \<Longrightarrow> n < 2 ^ nat (bitlen n)"
  using bitlen_bounds [of n] by (cases "n = 0") auto

lemma roundToGrid_mono_nonneg:
  assumes "0 \<le> x" and "x \<le> y"
  shows "roundToGrid x \<le> roundToGrid y"
proof -
  define bx where "bx = bitlen \<lfloor>x\<rfloor>"
  define by' where "by' = bitlen \<lfloor>y\<rfloor>"
  define jx where "jx = nat (bx - 53)"
  define jy where "jy = nat (by' - 53)"
  have ax: "\<bar>x\<bar> = x" and ay: "\<bar>y\<bar> = y"
    using assms by simp_all
  have qx: "quantum x = 2 ^ jx" and qy: "quantum y = 2 ^ jy"
    by (simp_all add: quantum_def ax ay jx_def jy_def bx_def by'_def)
  have "\<lfloor>x\<rfloor> \<le> \<lfloor>y\<rfloor>"
    using assms(2) by (rule floor_mono)
  then have bb: "bx \<le> by'"
    unfolding bx_def by'_def by (rule bitlen_mono)
  then have jj: "jx \<le> jy"
    by (simp add: jx_def jy_def)
  show ?thesis
  proof (cases "jx = jy")
    case True
    have "x / of_int (2 ^ jy) \<le> y / of_int (2 ^ jy)"
      using assms(2) by (simp add: divide_right_mono)
    then have "roundHalfEven (x / of_int (2 ^ jy)) \<le> roundHalfEven (y / of_int (2 ^ jy))"
      by (rule roundHalfEven_mono)
    then show ?thesis
      by (simp add: roundToGrid_def qx qy True)
  next
    case False
    with jj have lt: "jx < jy"
      by simp
    then have by54: "54 \<le> by'" and jy: "int jy = by' - 53"
      by (simp_all add: jy_def)
    from lt have "bx < by'"
      by (simp add: jx_def jy_def)
    have bx0: "0 \<le> bx"
      by (simp add: bx_def bitlen_nonneg)
    define p where "p = nat (by' - 1)"
    have jxp: "jx \<le> p" and jyp: "jy \<le> p"
      using \<open>bx < by'\<close> by54 by (simp_all add: jx_def jy_def p_def)
    have ny: "0 < \<lfloor>y\<rfloor>"
      using by54 bitlen_eq_zero_iff [of "\<lfloor>y\<rfloor>"] by (auto simp: by'_def not_le [symmetric])
    from bitlen_bounds [OF ny] have "2 ^ p \<le> \<lfloor>y\<rfloor>"
      by (simp add: p_def by'_def)
    then have "(of_int (2 ^ p) :: rat) \<le> of_int \<lfloor>y\<rfloor>"
      by (simp only: of_int_le_iff)
    also have "\<dots> \<le> y"
      by (rule of_int_floor_le)
    finally have py: "(of_int (2 ^ p) :: rat) \<le> y" .
    have "0 \<le> \<lfloor>x\<rfloor>"
      using assms(1) by simp
    then have "\<lfloor>x\<rfloor> < 2 ^ nat bx"
      unfolding bx_def by (rule less_power_bitlen)
    moreover have "(2::int) ^ nat bx \<le> 2 ^ p"
      using \<open>bx < by'\<close> bx0 by (intro power_increasing) (simp_all add: p_def)
    ultimately have "\<lfloor>x\<rfloor> < 2 ^ p"
      by (rule less_le_trans)
    then have "\<lfloor>x\<rfloor> + 1 \<le> 2 ^ p"
      by simp
    then have "(of_int (\<lfloor>x\<rfloor> + 1) :: rat) \<le> of_int (2 ^ p)"
      by (simp only: of_int_le_iff)
    moreover have "x \<le> of_int (\<lfloor>x\<rfloor> + 1)"
      by linarith
    ultimately have xp: "x \<le> of_int (2 ^ p)"
      by (rule order_trans [rotated])
    have px: "(2::int) ^ p = 2 ^ jx * 2 ^ (p - jx)"
      using jxp by (simp add: power_add [symmetric])
    have py': "(2::int) ^ p = 2 ^ jy * 2 ^ (p - jy)"
      using jyp by (simp add: power_add [symmetric])
    have "2 ^ jx * roundHalfEven (x / of_int (2 ^ jx)) \<le> (2::int) ^ jx * 2 ^ (p - jx)"
      using xp unfolding px by (rule grid_le) simp
    also have "\<dots> = 2 ^ p"
      by (simp only: px)
    also have "\<dots> = 2 ^ jy * 2 ^ (p - jy)"
      by (simp only: py')
    also have "\<dots> \<le> 2 ^ jy * roundHalfEven (y / of_int (2 ^ jy))"
      using py unfolding py' by (rule grid_ge) simp
    finally have "2 ^ jx * roundHalfEven (x / of_int (2 ^ jx))
        \<le> (2::int) ^ jy * roundHalfEven (y / of_int (2 ^ jy))" .
    then have "(of_int (2 ^ jx * roundHalfEven (x / of_int (2 ^ jx))) :: rat)
        \<le> of_int (2 ^ jy * roundHalfEven (y / of_int (2 ^ jy)))"
      by (simp only: of_int_le_iff)
    then show ?thesis
      by (simp only: roundToGrid_def qx qy)
  qed
qed

lemma roundToGrid_mono:
  assumes "x \<le> y"
  shows "roundToGrid x \<le> roundToGrid y"
proof (cases "0 \<le> x")
  case True
  then show ?thesis
    using assms by (rule roundToGrid_mono_nonneg)
next
  case False
  show ?thesis
  proof (cases "0 \<le> y")
    case True
    from False have "0 \<le> - x"
      by simp
    then have "0 \<le> roundToGrid (- x)"
      by (rule roundToGrid_nonneg)
    then have "roundToGrid x \<le> 0"
      by (simp add: roundToGrid_minus)
    also have "0 \<le> roundToGrid y"
      using True by (rule roundToGrid_nonneg)
    finally show ?thesis .
  next
    case False
    then have "0 \<le> - y" and "- y \<le> - x"
      using assms by simp_all
    then have "roundToGrid (- y) \<le> roundToGrid (- x)"
      by (rule roundToGrid_mono_nonneg)
    then show ?thesis
      by (simp add: roundToGrid_minus)
  qed
qed

lemma roundToGrid_exact:
  assumes "\<bar>m\<bar> < 2 ^ 53"
  shows "roundToGrid (of_int (m * 2 ^ c)) = of_int (m * 2 ^ c)"
proof (cases "m = 0")
  case True
  then show ?thesis
    by (simp add: roundToGrid_def)
next
  case False
  then have pos: "0 < \<bar>m\<bar>"
    by simp
  have "bitlen \<bar>m\<bar> \<le> 53"
    using assms by (simp add: bitlen_le_iff_power)
  define j where "j = nat (bitlen \<bar>m\<bar> + int c - 53)"
  have jc: "j \<le> c"
    using \<open>bitlen \<bar>m\<bar> \<le> 53\<close> by (simp add: j_def)
  have "\<bar>(of_int (m * 2 ^ c) :: rat)\<bar> = of_int (\<bar>m\<bar> * 2 ^ c)"
    by (simp add: abs_mult)
  then have "\<lfloor>\<bar>(of_int (m * 2 ^ c) :: rat)\<bar>\<rfloor> = \<bar>m\<bar> * 2 ^ c"
    by (simp only: floor_of_int)
  moreover have "bitlen (\<bar>m\<bar> * 2 ^ c) = bitlen \<bar>m\<bar> + int c"
    using pos by (rule bitlen_pow2)
  ultimately have q: "quantum (of_int (m * 2 ^ c)) = 2 ^ j"
    by (simp only: quantum_def j_def)
  have split: "m * 2 ^ c = 2 ^ j * (m * 2 ^ (c - j))"
    using jc by (simp add: power_add [symmetric] mult.left_commute)
  have "(of_int (m * 2 ^ c) :: rat) / of_int (2 ^ j) = of_int (m * 2 ^ (c - j))"
    unfolding split by simp
  then have r: "roundHalfEven (of_int (m * 2 ^ c) / of_int (2 ^ j)) = m * 2 ^ (c - j)"
    by (simp only: roundHalfEven_of_int)
  show ?thesis
    by (simp only: roundToGrid_def q r split [symmetric])
qed

lemma roundDoubleValue_mono:
  assumes "x \<le> y"
  shows "roundDoubleValue x \<le> roundDoubleValue y"
proof -
  have "x * 2 ^ SUBNORMAL_BITS \<le> y * 2 ^ SUBNORMAL_BITS"
    using assms by (simp add: mult_right_mono)
  then have "roundToGrid (x * 2 ^ SUBNORMAL_BITS) \<le> roundToGrid (y * 2 ^ SUBNORMAL_BITS)"
    by (rule roundToGrid_mono)
  then show ?thesis
    unfolding roundDoubleValue_def by (simp add: divide_right_mono)
qed

lemma roundDoubleValue_dyadic:
  assumes "x * 2 ^ c = of_int m" and "\<bar>m\<bar> < 2 ^ 53" and "c \<le> SUBNORMAL_BITS"
  shows "roundDoubleValue x = x"
proof -
  define d where "d = SUBNORMAL_BITS - c"
  have S: "SUBNORMAL_BITS = c + d"
    using assms(3) by (simp add: d_def)
  have "x * 2 ^ SUBNORMAL_BITS = (x * 2 ^ c) * 2 ^ d"
    unfolding S by (simp add: power_add)
  also have "\<dots> = of_int (m * 2 ^ d)"
    unfolding assms(1) by simp
  finally have sc: "x * 2 ^ SUBNORMAL_BITS = of_int (m * 2 ^ d)" .
  have "roundToGrid (x * 2 ^ SUBNORMAL_BITS) = x * 2 ^ SUBNORMAL_BITS"
    unfolding sc using assms(2) by (rule roundToGrid_exact)
  then show ?thesis
    unfolding roundDoubleValue_def by simp
qed

lemma roundDoubleValue_of_int:
  assumes "\<bar>n\<bar> \<le> 2 ^ 53"
  shows "roundDoubleValue (of_int n) = of_int n"
proof (cases "\<bar>n\<bar> < 2 ^ 53")
  case True
  have "(of_int n :: rat) * 2 ^ 0 = of_int n"
    by simp
  from this True show ?thesis
    by (rule roundDoubleValue_dyadic) simp
next
  case False
  with assms have "\<bar>n\<bar> = 2 ^ 53"
    by simp
  then obtain m :: int where m: "n = m * 2" "\<bar>m\<bar> < 2 ^ 53"
    by (cases "0 \<le> n") (auto intro: that [of "2 ^ 52"] that [of "- (2 ^ 52)"])
  have sc: "(of_int n :: rat) * 2 ^ SUBNORMAL_BITS = of_int (m * 2 ^ Suc SUBNORMAL_BITS)"
    unfolding m(1) by simp
  have "roundToGrid (of_int (m * 2 ^ Suc SUBNORMAL_BITS)) = of_int (m * 2 ^ Suc SUBNORMAL_BITS)"
    using m(2) by (rule roundToGrid_exact)
  then have "roundToGrid (of_int n * 2 ^ SUBNORMAL_BITS) = of_int n * 2 ^ SUBNORMAL_BITS"
    by (simp only: sc)
  then show ?thesis
    unfolding roundDoubleValue_def by simp
qed

lemma roundDouble_Finite:
  assumes "roundDoubleValue x = x" and "\<bar>x\<bar> < 2 ^ 1024"
  shows "roundDouble x = Finite x"
  using assms by (auto simp: roundDouble_def Let_def)

lemma roundDouble_int:
  assumes "x \<in> \<int>" and "\<bar>x\<bar> \<le> 2 ^ 53"
  shows "roundDouble x = Finite x"
proof -
  from assms(1) obtain n where n: "x = of_int n"
    by (auto elim: Ints_cases)
  with assms(2) have "\<bar>(of_int n :: rat)\<bar> \<le> of_int (2 ^ 53)"
    by simp
  then have "\<bar>n\<bar> \<le> 2 ^ 53"
    by (simp only: of_int_abs [symmetric] of_int_le_iff)
  then have "roundDoubleValue x = x"
    unfolding n by (rule roundDoubleValue_of_int)
  moreover have "\<bar>x\<bar> < 2 ^ 1024"
  proof -
    have "(2::rat) ^ 53 < 2 ^ 1024"
      by (rule power_strict_increasing) simp_all
    with assms(2) show ?thesis
      by (rule le_less_trans)
  qed
  ultimately show ?thesis
    by (rule roundDouble_Finite)
qed

lemma roundDouble_half:
  assumes "x * 2 \<in> \<int>" and "\<bar>x * 2\<bar> < 2 ^ 53"
  shows "roundDouble x = Finite x"
proof -
  from assms(1) obtain m where m: "x * 2 = of_int m"
    by (auto elim: Ints_cases)
  with assms(2) have "\<bar>(of_int m :: rat)\<bar> < of_int (2 ^ 53)"
    by simp
  then have b: "\<bar>m\<bar> < 2 ^ 53"
    by (simp only: of_int_abs [symmetric] of_int_less_iff)
  have "x * 2 ^ 1 = of_int m"
    using m by simp
  from this b have "roundDoubleValue x = x"
    by (rule roundDoubleValue_dyadic) (simp add: SUBNORMAL_BITS_def)
  moreover have "\<bar>x\<bar> < 2 ^ 1024"
  proof -
    have "\<bar>x\<bar> \<le> \<bar>x * 2\<bar>"
      by (simp add: abs_mult)
    also note assms(2)
    also have "(2::rat) ^ 53 < 2 ^ 1024"
      by (rule power_strict_increasing) simp_all
    finally show ?thesis .
  qed
  ultimately show ?thesis
    by (rule roundDouble_Finite)
qed

subsection \<open>Numbers\<close>

lemma Number_exact: "\<bar>n\<bar> \<le> 2 ^ 53 \<Longrightarrow> Number n = Finite (of_int n)"
  unfolding Number_def by (rule roundDouble_int) simp_all

lemma BigInt_of_int [simp]: "BigInt (Finite (of_int n)) = Inr n"
  by simp

lemma BigInt_Inr_D:
  assumes "BigInt x = Inr n"
  shows "x = Finite (of_int n)"
  using assms by (cases x) (auto split: if_splits)

lemma number_sub_Finite: "number_sub (Finite a) (Finite b) = roundDouble (a - b)"
  by (simp add: number_sub_def)

lemma number_sub_exact:
  assumes "\<bar>a - b\<bar> \<le> 2 ^ 53"
  shows "number_sub (Finite (of_int a)) (Finite (of_int b)) = Finite (of_int (a - b))"
proof -
  have "roundDouble (of_int (a - b)) = Finite (of_int (a - b))"
    using assms by (intro roundDouble_int) (simp_all flip: of_int_abs of_int_diff)
  then show ?thesis
    by (simp add: number_sub_Finite)
qed

lemma number_add_exact:
  assumes "\<bar>a + b\<bar> \<le> 2 ^ 53"
  shows "number_add (Finite (of_int a)) (Finite (of_int b)) = Finite (of_int (a + b))"
proof -
  have "roundDouble (of_int (a + b)) = Finite (of_int (a + b))"
    using assms by (intro roundDouble_int) (simp_all flip: of_int_abs of_int_add)
  then show ?thesis
    by simp
qed

lemma roundDouble_Finite_D:
  assumes "roundDouble x = Finite r"
  shows "r = roundDoubleValue x"
  using assms by (auto simp: roundDouble_def Let_def split: if_splits)

lemma ToInt32_of_int [simp]: "ToInt32 (Finite (of_int n)) = signed_take_bit 31 n"
  by simp

subsection \<open>The timestamp of a clock reading\<close>

lemma currentTimestamp_exact:
  assumes "timeOffset s = Finite (of_int e)" and "\<bar>clk k - e\<bar> \<le> 2 ^ 53"
  shows "currentTimestamp clk s k = Inr (clk k - e)"
  unfolding currentTimestamp_def assms(1)
  by (simp only: number_sub_exact [OF assms(2)] BigInt_of_int)

lemma currentTimestamp_Inr_D:
  assumes "currentTimestamp clk s k = Inr t"
  shows "\<exists>e. timeOffset s = Finite e \<and> of_int t = roundDoubleValue (of_int (clk k) - e)"
proof (cases "timeOffset s")
  case (Finite e)
  from assms have "number_sub (Finite (of_int (clk k))) (Finite e) = Finite (of_int t)"
    unfolding currentTimestamp_def Finite by (rule BigInt_Inr_D)
  then have "roundDouble (of_int (clk k) - e) = Finite (of_int t)"
    by (simp only: number_sub_Finite)
  then have "of_int t = roundDoubleValue (of_int (clk k) - e)"
    by (rule roundDouble_Finite_D)
  with Finite show ?thesis
    by simp
next
  case NaN
  with assms show ?thesis
    by (simp add: currentTimestamp_def number_sub_def)
next
  case PosInfinity
  with assms show ?thesis
    by (simp add: currentTimestamp_def number_sub_def)
next
  case NegInfinity
  with assms show ?thesis
    by (simp add: currentTimestamp_def number_sub_def)
qed

lemma currentTimestamp_mono:
  assumes "currentTimestamp clk s k = Inr a" and "currentTimestamp clk s j = Inr b"
    and "clk k \<le> clk j"
  shows "a \<le> b"
proof -
  from currentTimestamp_Inr_D [OF assms(1)] obtain e where
    e: "timeOffset s = Finite e" and a: "of_int a = roundDoubleValue (of_int (clk k) - e)"
    by blast
  from currentTimestamp_Inr_D [OF assms(2)] e have
    b: "of_int b = roundDoubleValue (of_int (clk j) - e)"
    by simp
  have "(of_int (clk k) :: rat) - e \<le> of_int (clk j) - e"
    using assms(3) by simp
  then have "roundDoubleValue (of_int (clk k) - e) \<le> roundDoubleValue (of_int (clk j) - e)"
    by (rule roundDoubleValue_mono)
  then have "(of_int a :: rat) \<le> of_int b"
    by (simp only: a b)
  then show ?thesis
    by (simp only: of_int_le_iff)
qed

subsection \<open>Constants and bit fields\<close>

lemmas bits_defs = TOTAL_BITS_def EPOCH_BITS_def NODE_ID_BITS_def SEQUENCE_BITS_def
  TIMESTAMP_LEFT_SHIFT_def NODE_ID_SHIFT_def

lemma maxNodeID_eq: "maxNodeID = 4095"
  by (simp add: maxNodeID_def NODE_ID_BITS_def)

lemma maxSequence_eq: "maxSequence = 1023"
  by (simp add: maxSequence_def SEQUENCE_BITS_def)

lemma composeID_eq:
  assumes "0 \<le> n" "n < 4096" "0 \<le> q" "q < 1024"
  shows "composeID t n q = t * 4194304 + n * 1024 + q"
proof -
  have q: "take_bit 10 q = q"
    using assms by (simp add: take_bit_int_eq_self)
  have "push_bit 10 n OR q = concat_bit 10 q n"
    by (simp add: concat_bit_def q or.commute)
  also have "\<dots> = q + n * 1024"
    by (simp add: concat_bit_eq q push_bit_eq_mult)
  finally have low: "push_bit 10 n OR q = q + n * 1024" .
  have "0 \<le> q + n * 1024" and "q + n * 1024 < 2 ^ 22"
    using assms by auto
  then have m: "take_bit 22 (q + n * 1024) = q + n * 1024"
    by (simp add: take_bit_int_eq_self)
  have "push_bit 22 t OR (q + n * 1024) = concat_bit 22 (q + n * 1024) t"
    by (simp add: concat_bit_def m or.commute)
  also have "\<dots> = (q + n * 1024) + t * 4194304"
    by (simp add: concat_bit_eq m push_bit_eq_mult)
  finally show ?thesis
    by (simp add: composeID_def bits_defs low)
qed

lemma getNodeIDFromID_eq: "getNodeIDFromID i = take_bit 12 (drop_bit 10 i)"
  by (simp add: getNodeIDFromID_def bits_defs drop_bit_push_bit)

lemma getSequenceFromID_eq: "getSequenceFromID i = take_bit 10 i"
  by (simp add: getSequenceFromID_def bits_defs drop_bit_push_bit)

lemma take_bit_12_bounds: "0 \<le> take_bit 12 (x::int) \<and> take_bit 12 x \<le> 4095"
  using take_bit_int_less_exp [of 12 x] by simp

lemma take_bit_12_eq_and: "take_bit 12 (x::int) = x AND 4095"
proof -
  have "(4095::int) = mask 12"
    by (simp add: mask_eq_exp_minus_1)
  then show ?thesis
    by (simp only: take_bit_eq_mask)
qed

lemma number_and_maxNodeID: "number_and x (Number maxNodeID) = take_bit 12 (ToInt32 x)"
proof -
  have "Number maxNodeID = Finite (of_int 4095)"
    unfolding maxNodeID_eq by (rule Number_exact) simp
  then have c: "ToInt32 (Number maxNodeID) = 4095"
    by simp
  have a: "ToInt32 x AND 4095 = take_bit 12 (ToInt32 x)"
    by (simp only: take_bit_12_eq_and)
  have nn: "(0::int) \<le> take_bit 12 (ToInt32 x)"
    by simp
  have "- (2 ^ 31) \<le> (0::int)"
    by simp
  from this nn have "- (2 ^ 31) \<le> take_bit 12 (ToInt32 x)"
    by (rule order_trans)
  moreover have "take_bit 12 (ToInt32 x) < 2 ^ 31"
    using take_bit_12_bounds [of "ToInt32 x"] by simp
  ultimately have "signed_take_bit 31 (take_bit 12 (ToInt32 x)) = take_bit 12 (ToInt32 x)"
    by (rule signed_take_bit_int_eq_self)
  then show ?thesis
    by (simp only: number_and_def c a)
qed

lemma number_and_maxNodeID_int:
  "number_and (Finite (of_int n)) (Number maxNodeID) = n AND 4095"
proof -
  have "take_bit 12 (signed_take_bit 31 n) = take_bit 12 n"
    by (simp add: take_bit_signed_take_bit)
  then show ?thesis
    by (simp only: number_and_maxNodeID ToInt32_of_int take_bit_12_eq_and)
qed

subsection \<open>The wait loop\<close>

lemma currentTimestamp_cong:
  "timeOffset s1 = timeOffset s \<Longrightarrow> currentTimestamp clk s1 k = currentTimestamp clk s k"
  by (simp add: currentTimestamp_def)

lemma waitLoop_Some_aux:
  assumes "waitLoop clk0 s0 k0 = Some y0"
  shows "\<exists>j. k0 \<le> j
           \<and> (\<forall>i. k0 \<le> i \<and> i < j \<longrightarrow> currentTimestamp clk0 s0 i = Inr (lastTimestamp s0))
           \<and> (case y0 of
                 Inl e \<Rightarrow> currentTimestamp clk0 s0 j = Inl e
               | Inr r \<Rightarrow> snd r = Suc j \<and> currentTimestamp clk0 s0 j = Inr (fst r)
                           \<and> fst r \<noteq> lastTimestamp s0)"
proof -
  define P where "P = (\<lambda>(clk::clock) (s::snowflake) (k::nat) (y::error + int \<times> nat).
    \<exists>j. k \<le> j
       \<and> (\<forall>i. k \<le> i \<and> i < j \<longrightarrow> currentTimestamp clk s i = Inr (lastTimestamp s))
       \<and> (case y of
             Inl e \<Rightarrow> currentTimestamp clk s j = Inl e
           | Inr r \<Rightarrow> snd r = Suc j \<and> currentTimestamp clk s j = Inr (fst r)
                       \<and> fst r \<noteq> lastTimestamp s))"
  have "P clk0 s0 k0 y0"
  proof (rule waitLoop.raw_induct [of P, OF _ assms])
    fix w :: "clock \<Rightarrow> snowflake \<Rightarrow> nat \<Rightarrow> (error + int \<times> nat) option"
      and clk :: clock and s :: snowflake and k :: nat and y :: "error + int \<times> nat"
    assume IH: "\<And>c s k y. w c s k = Some y \<Longrightarrow> P c s k y"
      and eq: "(case currentTimestamp clk s k of
                  Inl e \<Rightarrow> Some (Inl e)
                | Inr timestamp \<Rightarrow>
                    if timestamp = lastTimestamp s then w clk s (Suc k)
                    else Some (Inr (timestamp, Suc k))) = Some y"
    show "P clk s k y"
    proof (cases "currentTimestamp clk s k")
      case (Inl e)
      with eq have "y = Inl e"
        by simp
      with Inl show ?thesis
        unfolding P_def by (intro exI [of _ k]) auto
    next
      case (Inr t)
      show ?thesis
      proof (cases "t = lastTimestamp s")
        case True
        with Inr eq have "w clk s (Suc k) = Some y"
          by simp
        then have "P clk s (Suc k) y"
          by (rule IH)
        then obtain j where j: "Suc k \<le> j"
          "\<forall>i. Suc k \<le> i \<and> i < j \<longrightarrow> currentTimestamp clk s i = Inr (lastTimestamp s)"
          "case y of
             Inl e \<Rightarrow> currentTimestamp clk s j = Inl e
           | Inr r \<Rightarrow> snd r = Suc j \<and> currentTimestamp clk s j = Inr (fst r)
                       \<and> fst r \<noteq> lastTimestamp s"
          unfolding P_def by blast
        have "currentTimestamp clk s i = Inr (lastTimestamp s)" if "k \<le> i \<and> i < j" for i
        proof (cases "i = k")
          case True
          with Inr \<open>t = lastTimestamp s\<close> show ?thesis by simp
        next
          case False
          with that have "Suc k \<le> i \<and> i < j" by simp
          with j(2) show ?thesis by blast
        qed
        with j(1,3) show ?thesis
          unfolding P_def by (intro exI [of _ j]) simp
      next
        case False
        with Inr eq have "y = Inr (t, Suc k)"
          by simp
        with Inr False show ?thesis
          unfolding P_def by (intro exI [of _ k]) auto
      qed
    qed
  qed
  then show ?thesis
    unfolding P_def .
qed

lemma waitLoop_Inr_D:
  assumes "waitLoop clk s k = Some (Inr (ts, k1))"
  shows "\<exists>j. k \<le> j \<and> k1 = Suc j \<and> currentTimestamp clk s j = Inr ts \<and> ts \<noteq> lastTimestamp s
              \<and> (\<forall>i. k \<le> i \<and> i < j \<longrightarrow> currentTimestamp clk s i = Inr (lastTimestamp s))"
  using waitLoop_Some_aux [OF assms] by auto

lemma waitLoop_Inl_D:
  assumes "waitLoop clk s k = Some (Inl e)"
  shows "\<exists>j. k \<le> j \<and> currentTimestamp clk s j = Inl e"
  using waitLoop_Some_aux [OF assms] by auto

lemma waitLoop_first:
  assumes "currentTimestamp clk s j = Inr t" and "t \<noteq> lastTimestamp s"
    and "\<forall>i. k \<le> i \<and> i < j \<longrightarrow> currentTimestamp clk s i = Inr (lastTimestamp s)"
    and "k \<le> j"
  shows "waitLoop clk s k = Some (Inr (t, Suc j))"
  using assms(3,4)
proof (induction "j - k" arbitrary: k)
  case 0
  then have "k = j" by simp
  with assms(1,2) show ?case
    by (subst waitLoop.simps) simp
next
  case (Suc d)
  then have "k < j" by simp
  with Suc.prems have same: "currentTimestamp clk s k = Inr (lastTimestamp s)"
    by simp
  have d: "d = j - Suc k"
    using Suc.hyps(2) by simp
  have rest: "\<forall>i. Suc k \<le> i \<and> i < j \<longrightarrow> currentTimestamp clk s i = Inr (lastTimestamp s)"
    using Suc.prems(1) by simp
  have "Suc k \<le> j"
    using \<open>k < j\<close> by simp
  with d rest have "waitLoop clk s (Suc k) = Some (Inr (t, Suc j))"
    by (rule Suc.hyps(1))
  with same show ?case
    by (subst waitLoop.simps) simp
qed

lemma waitLoop_returns:
  assumes "k \<le> j" and "currentTimestamp clk s j = Inr t" and "t \<noteq> lastTimestamp s"
    and "\<forall>i. k \<le> i \<and> i < j \<longrightarrow> (\<exists>u. currentTimestamp clk s i = Inr u)"
  shows "\<exists>j0 t0. k \<le> j0 \<and> j0 \<le> j \<and> waitLoop clk s k = Some (Inr (t0, Suc j0))
            \<and> currentTimestamp clk s j0 = Inr t0 \<and> t0 \<noteq> lastTimestamp s
            \<and> (\<forall>i. k \<le> i \<and> i < j0 \<longrightarrow> currentTimestamp clk s i = Inr (lastTimestamp s))"
proof -
  define Q where "Q i \<longleftrightarrow> k \<le> i \<and> currentTimestamp clk s i \<noteq> Inr (lastTimestamp s)" for i
  define j0 where "j0 = (LEAST i. Q i)"
  have "Q j" using assms(1-3) by (simp add: Q_def)
  then have "Q j0" and le: "j0 \<le> j" and least: "\<And>i. i < j0 \<Longrightarrow> \<not> Q i"
    unfolding j0_def by (auto intro: LeastI Least_le dest: not_less_Least)
  have before: "\<forall>i. k \<le> i \<and> i < j0 \<longrightarrow> currentTimestamp clk s i = Inr (lastTimestamp s)"
    using least by (auto simp: Q_def)
  obtain t0 where t0: "currentTimestamp clk s j0 = Inr t0"
  proof (cases "j0 = j")
    case True
    with assms(2) that show ?thesis by simp
  next
    case False
    with le \<open>Q j0\<close> have "k \<le> j0 \<and> j0 < j"
      by (simp add: Q_def)
    with assms(4) that show ?thesis by blast
  qed
  with \<open>Q j0\<close> have ne: "t0 \<noteq> lastTimestamp s" and kj: "k \<le> j0"
    by (auto simp: Q_def)
  from t0 ne before kj have "waitLoop clk s k = Some (Inr (t0, Suc j0))"
    by (rule waitLoop_first)
  with kj le t0 ne before show ?thesis
    by blast
qed

lemma waitLoop_frozen:
  assumes "\<forall>i. k \<le> i \<longrightarrow> currentTimestamp clk s i = Inr (lastTimestamp s)"
  shows "waitLoop clk s k = None"
proof (cases "waitLoop clk s k")
  case None
  then show ?thesis .
next
  case (Some y)
  show ?thesis
  proof (cases y)
    case (Inl e)
    with Some waitLoop_Inl_D [of clk s k e] assms show ?thesis
      by auto
  next
    case (Inr r)
    obtain ts k1 where "r = (ts, k1)" by (cases r)
    with Inr Some waitLoop_Inr_D [of clk s k ts k1] assms show ?thesis
      by auto
  qed
qed

subsection \<open>One call\<close>

lemma genNewID_Inr_D:
  assumes "genNewID clk s k = Some (Inr (i, s1, k1))"
  shows "\<exists>j q t. k \<le> j \<and> k1 = Suc j
           \<and> currentTimestamp clk s j = Inr t
           \<and> s1 = s\<lparr> lastTimestamp := t, lastSequence := q \<rparr>
           \<and> i = composeID t (nodeID s) q
           \<and> ((j = k \<and> t = lastTimestamp s \<and> q = lastSequence s + 1 \<and> q \<le> 1023)
              \<or> (t \<noteq> lastTimestamp s \<and> q = 0))"
proof (cases "currentTimestamp clk s k")
  case (Inl e)
  with assms show ?thesis
    by (simp add: genNewID_def)
next
  case (Inr t)
  show ?thesis
  proof (cases "t = lastTimestamp s")
    case False
    with Inr assms have "k1 = Suc k" "s1 = s\<lparr> lastTimestamp := t, lastSequence := 0 \<rparr>"
      "i = composeID t (nodeID s) 0"
      by (simp_all add: genNewID_def Let_def)
    with False Inr show ?thesis
      by (intro exI [of _ k] exI [of _ 0] exI [of _ t]) simp
  next
    case same: True
    show ?thesis
    proof (cases "lastSequence s + 1 > 1023")
      case False
      with same Inr assms have "k1 = Suc k"
        "s1 = s\<lparr> lastTimestamp := t, lastSequence := lastSequence s + 1 \<rparr>"
        "i = composeID t (nodeID s) (lastSequence s + 1)"
        by (simp_all add: genNewID_def Let_def maxSequence_eq)
      with False same Inr show ?thesis
        by (intro exI [of _ k] exI [of _ "lastSequence s + 1"] exI [of _ t]) simp
    next
      case True
      show ?thesis
      proof (cases "waitLoop clk s (Suc k)")
        case None
        with same True Inr assms show ?thesis
          by (simp add: genNewID_def Let_def maxSequence_eq)
      next
        case (Some y)
        show ?thesis
        proof (cases y)
          case (Inl e)
          with Some same True Inr assms show ?thesis
            by (simp add: genNewID_def Let_def maxSequence_eq)
        next
          case r: (Inr r)
          obtain ts k2 where "r = (ts, k2)"
            by (cases r)
          with r Some have w: "waitLoop clk s (Suc k) = Some (Inr (ts, k2))"
            by simp
          with same True Inr assms have res: "k1 = k2"
            "s1 = s\<lparr> lastTimestamp := ts, lastSequence := 0 \<rparr>"
            "i = composeID ts (nodeID s) 0"
            by (simp_all add: genNewID_def Let_def maxSequence_eq)
          from waitLoop_Inr_D [OF w] obtain j where j: "Suc k \<le> j" "k2 = Suc j"
            "currentTimestamp clk s j = Inr ts" "ts \<noteq> lastTimestamp s"
            by blast
          with res show ?thesis
            by (intro exI [of _ j] exI [of _ 0] exI [of _ ts]) simp
        qed
      qed
    qed
  qed
qed

lemma composeID_less:
  assumes "0 \<le> n" "n \<le> 4095" "0 \<le> q1" "q1 \<le> 1023" "0 \<le> q2" "q2 \<le> 1023"
    and "t1 < t2 \<or> (t1 = t2 \<and> q1 < q2)"
  shows "composeID t1 n q1 < composeID t2 n q2"
proof -
  have "composeID t1 n q1 = t1 * 4194304 + n * 1024 + q1"
    and "composeID t2 n q2 = t2 * 4194304 + n * 1024 + q2"
    using assms(1-6) by (simp_all add: composeID_eq)
  with assms show ?thesis
    by auto
qed

lemma genNewID_bounds:
  assumes "- 1 \<le> lastSequence s" and "genNewID clk s k = Some (Inr (i, s1, k1))"
  shows "0 \<le> lastSequence s1 \<and> lastSequence s1 \<le> 1023
         \<and> nodeID s1 = nodeID s \<and> timeOffset s1 = timeOffset s
         \<and> i = composeID (lastTimestamp s1) (nodeID s1) (lastSequence s1)
         \<and> (\<exists>j. k \<le> j \<and> j < k1 \<and> currentTimestamp clk s j = Inr (lastTimestamp s1))"
proof -
  from genNewID_Inr_D [OF assms(2)] obtain j q t where jq: "k \<le> j" "k1 = Suc j"
    "currentTimestamp clk s j = Inr t"
    "s1 = s\<lparr> lastTimestamp := t, lastSequence := q \<rparr>"
    "i = composeID t (nodeID s) q"
    "(q = lastSequence s + 1 \<and> q \<le> 1023) \<or> q = 0"
    by blast
  from jq(6) assms(1) have "0 \<le> q" "q \<le> 1023"
    by auto
  moreover have "k \<le> j \<and> j < k1 \<and> currentTimestamp clk s j = Inr (lastTimestamp s1)"
    using jq(1-4) by simp
  ultimately show ?thesis
    using jq(4,5) by auto
qed

lemma genNewID_next_greater:
  assumes "0 \<le> nodeID s" "nodeID s \<le> 4095" "0 \<le> lastSequence s" "lastSequence s \<le> 1023"
    and later: "\<forall>j t. k \<le> j \<and> currentTimestamp clk s j = Inr t \<longrightarrow> lastTimestamp s \<le> t"
    and "genNewID clk s k = Some (Inr (i, s1, k1))"
  shows "composeID (lastTimestamp s) (nodeID s) (lastSequence s) < i"
proof -
  from genNewID_Inr_D [OF assms(6)] obtain j q t where jq: "k \<le> j"
    "currentTimestamp clk s j = Inr t"
    "i = composeID t (nodeID s) q"
    "(t = lastTimestamp s \<and> q = lastSequence s + 1 \<and> q \<le> 1023)
       \<or> (t \<noteq> lastTimestamp s \<and> q = 0)"
    by blast
  from later jq(1,2) have le: "lastTimestamp s \<le> t"
    by blast
  from jq(4) assms(3) have q: "0 \<le> q" "q \<le> 1023"
    by auto
  from jq(4) le have "lastTimestamp s < t \<or> (lastTimestamp s = t \<and> lastSequence s < q)"
    by auto
  with assms(1-4) q show ?thesis
    unfolding jq(3) by (intro composeID_less) simp_all
qed

lemma later_after_call:
  assumes "mono clk" and "timeOffset s1 = timeOffset s"
    and "j < k1" and "currentTimestamp clk s j = Inr (lastTimestamp s1)"
  shows "\<forall>j' t. k1 \<le> j' \<and> currentTimestamp clk s1 j' = Inr t \<longrightarrow> lastTimestamp s1 \<le> t"
proof (intro allI impI)
  fix j' t assume h: "k1 \<le> j' \<and> currentTimestamp clk s1 j' = Inr t"
  with assms(3) have "j \<le> j'" by simp
  with assms(1) have le: "clk j \<le> clk j'" by (rule monoD)
  from h have "currentTimestamp clk s j' = Inr t"
    by (simp only: currentTimestamp_cong [OF assms(2)])
  with assms(4) show "lastTimestamp s1 \<le> t"
    using le by (rule currentTimestamp_mono)
qed

subsection \<open>Consecutive calls\<close>

lemma genMany_Suc_Inr_D:
  assumes "genMany clk (Suc n) s k = Some (Inr (ids, s', k'))"
  shows "\<exists>i s1 k1 ids1. genNewID clk s k = Some (Inr (i, s1, k1))
           \<and> genMany clk n s1 k1 = Some (Inr (ids1, s', k')) \<and> ids = i # ids1"
  using assms by (auto split: option.splits sum.splits prod.splits)

lemma genMany_length:
  "genMany clk n s k = Some (Inr (ids, s', k')) \<Longrightarrow> length ids = n"
proof (induction n arbitrary: s k ids)
  case 0
  then show ?case by simp
next
  case (Suc n)
  from genMany_Suc_Inr_D [OF Suc.prems] obtain i s1 k1 ids1 where
    "genMany clk n s1 k1 = Some (Inr (ids1, s', k'))" "ids = i # ids1"
    by blast
  with Suc.IH [of s1 k1 ids1] show ?case
    by simp
qed

lemma genMany_after_issue:
  assumes "mono clk"
    and "0 \<le> nodeID s" "nodeID s \<le> 4095" "0 \<le> lastSequence s" "lastSequence s \<le> 1023"
    and "\<forall>j t. k \<le> j \<and> currentTimestamp clk s j = Inr t \<longrightarrow> lastTimestamp s \<le> t"
    and "genMany clk n s k = Some (Inr (ids, s', k'))"
  shows "sorted_wrt (<) (composeID (lastTimestamp s) (nodeID s) (lastSequence s) # ids)"
  using assms(2-)
proof (induction n arbitrary: s k ids)
  case 0
  then show ?case by simp
next
  case (Suc n)
  from genMany_Suc_Inr_D [OF Suc.prems(6)] obtain i s1 k1 ids1 where
    call: "genNewID clk s k = Some (Inr (i, s1, k1))"
    and rest: "genMany clk n s1 k1 = Some (Inr (ids1, s', k'))"
    and ids: "ids = i # ids1"
    by blast
  have gt: "composeID (lastTimestamp s) (nodeID s) (lastSequence s) < i"
    using Suc.prems(1-5) call by (rule genNewID_next_greater)
  have "- 1 \<le> lastSequence s"
    using Suc.prems(3) by simp
  from genNewID_bounds [OF this call] obtain j where
    b: "0 \<le> lastSequence s1" "lastSequence s1 \<le> 1023" "nodeID s1 = nodeID s"
      "timeOffset s1 = timeOffset s" "i = composeID (lastTimestamp s1) (nodeID s1) (lastSequence s1)"
    and j: "j < k1" "currentTimestamp clk s j = Inr (lastTimestamp s1)"
    by blast
  have later1: "\<forall>j' t. k1 \<le> j' \<and> currentTimestamp clk s1 j' = Inr t \<longrightarrow> lastTimestamp s1 \<le> t"
    using \<open>mono clk\<close> b(4) j by (rule later_after_call)
  have "0 \<le> nodeID s1" "nodeID s1 \<le> 4095"
    using Suc.prems(1,2) b(3) by simp_all
  from this b(1,2) later1 rest
  have "sorted_wrt (<) (composeID (lastTimestamp s1) (nodeID s1) (lastSequence s1) # ids1)"
    by (rule Suc.IH)
  then have s1: "sorted_wrt (<) (i # ids1)"
    using b(5) by simp
  with gt show ?case
    unfolding ids by auto
qed

lemma genMany_sorted:
  assumes "mono clk"
    and "0 \<le> nodeID s" "nodeID s \<le> 4095" "- 1 \<le> lastSequence s" "lastSequence s \<le> 1023"
    and "genMany clk n s k = Some (Inr (ids, s', k'))"
  shows "sorted_wrt (<) ids"
proof (cases n)
  case 0
  with assms(6) show ?thesis by simp
next
  case (Suc m)
  with assms(6) have "genMany clk (Suc m) s k = Some (Inr (ids, s', k'))"
    by simp
  from genMany_Suc_Inr_D [OF this] obtain i s1 k1 ids1 where
    call: "genNewID clk s k = Some (Inr (i, s1, k1))"
    and rest: "genMany clk m s1 k1 = Some (Inr (ids1, s', k'))"
    and ids: "ids = i # ids1"
    by blast
  from genNewID_bounds [OF assms(4) call] obtain j where
    b: "0 \<le> lastSequence s1" "lastSequence s1 \<le> 1023" "nodeID s1 = nodeID s"
      "timeOffset s1 = timeOffset s" "i = composeID (lastTimestamp s1) (nodeID s1) (lastSequence s1)"
    and j: "j < k1" "currentTimestamp clk s j = Inr (lastTimestamp s1)"
    by blast
  have later1: "\<forall>j' t. k1 \<le> j' \<and> currentTimestamp clk s1 j' = Inr t \<longrightarrow> lastTimestamp s1 \<le> t"
    using \<open>mono clk\<close> b(4) j by (rule later_after_call)
  have "0 \<le> nodeID s1" "nodeID s1 \<le> 4095"
    using assms(2,3) b(3) by simp_all
  from assms(1) this b(1,2) later1 rest
  have "sorted_wrt (<) (composeID (lastTimestamp s1) (nodeID s1) (lastSequence s1) # ids1)"
    by (rule genMany_after_issue)
  then show ?thesis
    unfolding ids b(5) .
qed

subsection \<open>isMonotonic\<close>

lemma isMonotonic_iff_sorted_wrt: "isMonotonic arr \<longleftrightarrow> sorted_wrt (<) arr"
proof -
  have "isMonotonic arr \<longleftrightarrow> (\<forall>idx<length arr. idx \<noteq> 0 \<longrightarrow> arr ! (idx - 1) < arr ! idx)"
    by (auto simp: isMonotonic_def list_all_iff)
  also have "\<dots> \<longleftrightarrow> (\<forall>i. Suc i < length arr \<longrightarrow> arr ! i < arr ! Suc i)"
  proof
    assume h: "\<forall>idx<length arr. idx \<noteq> 0 \<longrightarrow> arr ! (idx - 1) < arr ! idx"
    show "\<forall>i. Suc i < length arr \<longrightarrow> arr ! i < arr ! Suc i"
    proof (intro allI impI)
      fix i assume "Suc i < length arr"
      with h [rule_format, of "Suc i"] show "arr ! i < arr ! Suc i" by simp
    qed
  next
    assume h: "\<forall>i. Suc i < length arr \<longrightarrow> arr ! i < arr ! Suc i"
    show "\<forall>idx<length arr. idx \<noteq> 0 \<longrightarrow> arr ! (idx - 1) < arr ! idx"
    proof (intro allI impI)
      fix idx assume "idx < length arr" "idx \<noteq> 0"
      then obtain i where "idx = Suc i" by (cases idx) auto
      with h [rule_format, of i] \<open>idx < length arr\<close> show "arr ! (idx - 1) < arr ! idx" by simp
    qed
  qed
  also have "\<dots> \<longleftrightarrow> sorted_wrt (<) arr"
    by (rule sorted_wrt_iff_nth_Suc_transp [symmetric]) simp
  finally show ?thesis .
qed

subsection \<open>Reachable states\<close>

lemma new_Snowflake_bounds:
  "0 \<le> nodeID (new_Snowflake E n t) \<and> nodeID (new_Snowflake E n t) \<le> 4095
   \<and> lastSequence (new_Snowflake E n t) = - 1 \<and> lastTimestamp (new_Snowflake E n t) = 0"
  using take_bit_12_bounds by (simp add: new_Snowflake_def Let_def number_and_maxNodeID)

lemma reachable_bounds:
  assumes "reachable E clk s"
  shows "0 \<le> nodeID s \<and> nodeID s \<le> 4095 \<and> - 1 \<le> lastSequence s \<and> lastSequence s \<le> 1023"
  using assms
proof (induction rule: reachable.induct)
  case (fresh n t)
  show ?case
    using new_Snowflake_bounds [of E n t] by simp
next
  case (step s k i s1 k1)
  then have "- 1 \<le> lastSequence s"
    by simp
  from genNewID_bounds [OF this step.hyps(2)] step.IH show ?case
    by simp
qed

subsection \<open>Fields of a composed identifier\<close>

lemma div_mod_split:
  fixes r b c :: int
  assumes "0 \<le> r" "r < b"
  shows "(r + b * c) div b = c" and "(r + b * c) mod b = r"
proof -
  from assms have nz: "b \<noteq> 0"
    by auto
  have "(r + b * c) div b = c + r div b"
    using nz by (rule div_mult_self2)
  also have "r div b = 0"
    using assms by (rule div_pos_pos_trivial)
  finally show "(r + b * c) div b = c"
    by simp
  have "(r + b * c) mod b = r mod b"
    by (rule mod_mult_self2)
  also have "r mod b = r"
    using assms by (rule mod_pos_pos_trivial)
  finally show "(r + b * c) mod b = r" .
qed

lemma composeID_drop_22:
  assumes "0 \<le> n" "n \<le> 4095" "0 \<le> q" "q \<le> 1023"
  shows "drop_bit 22 (composeID t n q) = t"
proof -
  have e: "composeID t n q = (n * 1024 + q) + 4194304 * t"
    using assms by (simp add: composeID_eq)
  have "0 \<le> n * 1024 + q" and "n * 1024 + q < 4194304"
    using assms by auto
  then have "((n * 1024 + q) + 4194304 * t) div 4194304 = t"
    by (rule div_mod_split(1))
  then show ?thesis
    unfolding e by (simp only: drop_bit_eq_div) simp
qed

lemma composeID_node:
  assumes "0 \<le> n" "n \<le> 4095" "0 \<le> q" "q \<le> 1023"
  shows "take_bit 12 (drop_bit 10 (composeID t n q)) = n"
proof -
  have e: "composeID t n q = q + 1024 * (n + 4096 * t)"
    using assms by (simp add: composeID_eq)
  have "0 \<le> q" and "q < 1024"
    using assms by auto
  then have "(q + 1024 * (n + 4096 * t)) div 1024 = n + 4096 * t"
    by (rule div_mod_split(1))
  then have d: "drop_bit 10 (composeID t n q) = n + 4096 * t"
    unfolding e by (simp only: drop_bit_eq_div) simp
  have "0 \<le> n" and "n < 4096"
    using assms by auto
  then have "(n + 4096 * t) mod 4096 = n"
    by (rule div_mod_split(2))
  then show ?thesis
    unfolding d by (simp only: take_bit_eq_mod) simp
qed

lemma composeID_sequence:
  assumes "0 \<le> n" "n \<le> 4095" "0 \<le> q" "q \<le> 1023"
  shows "take_bit 10 (composeID t n q) = q"
proof -
  have e: "composeID t n q = q + 1024 * (n + 4096 * t)"
    using assms by (simp add: composeID_eq)
  have "0 \<le> q" and "q < 1024"
    using assms by auto
  then have "(q + 1024 * (n + 4096 * t)) mod 1024 = q"
    by (rule div_mod_split(2))
  then show ?thesis
    unfolding e by (simp only: take_bit_eq_mod) simp
qed

lemma composeID_below_2_63:
  assumes "0 \<le> t" "t < 2199023255552" "0 \<le> n" "n \<le> 4095" "0 \<le> q" "q \<le> 1023"
  shows "0 \<le> composeID t n q \<and> composeID t n q < 9223372036854775808"
proof -
  have "composeID t n q = t * 4194304 + n * 1024 + q"
    using assms by (simp add: composeID_eq)
  with assms show ?thesis
    by auto
qed

lemma not_bit_63:
  assumes "0 \<le> i" "i < 9223372036854775808"
  shows "\<not> bit (i::int) 63"
proof -
  from assms have "i div 9223372036854775808 = 0"
    by (rule div_pos_pos_trivial)
  then have "\<not> odd (i div 2 ^ 63)"
    by simp
  then show ?thesis
    unfolding bit_iff_odd .
qed

subsection \<open>Calls return when the clock advances\<close>

text \<open>
  With an integer epoch offset and time differences of magnitude at most \<open>2^53\<close> the
  subtraction is exact and the conversion to a bigint succeeds. Then a call returns at
  once unless the sequence numbers of the millisecond are used up, and in that case it
  returns as soon as a later reading of the clock differs. On a clock that always moves
  on eventually, any number of consecutive calls return.
\<close>

lemma genNewID_returns:
  assumes "timeOffset s = Finite (of_int e)" and "\<forall>m. \<bar>clk m - e\<bar> \<le> 2 ^ 53"
    and "clk k - e \<noteq> lastTimestamp s
           \<or> lastSequence s + 1 \<le> maxSequence
           \<or> (\<exists>j>k. clk j - e \<noteq> lastTimestamp s)"
  shows "\<exists>i s1 k1. genNewID clk s k = Some (Inr (i, s1, k1))"
proof -
  have ts: "currentTimestamp clk s m = Inr (clk m - e)" for m
    using assms(1) assms(2) [rule_format, of m] by (rule currentTimestamp_exact)
  show ?thesis
  proof (cases "clk k - e = lastTimestamp s \<and> lastSequence s + 1 > maxSequence")
    case False
    then show ?thesis
      by (auto simp: genNewID_def Let_def ts)
  next
    case True
    with assms(3) obtain j where j: "k < j" "clk j - e \<noteq> lastTimestamp s"
      by auto
    then have "Suc k \<le> j"
      by simp
    moreover have "\<forall>i. Suc k \<le> i \<and> i < j \<longrightarrow> (\<exists>u. currentTimestamp clk s i = Inr u)"
      by (simp add: ts)
    ultimately obtain j0 t0 where "waitLoop clk s (Suc k) = Some (Inr (t0, Suc j0))"
      using waitLoop_returns [of "Suc k" j clk s "clk j - e"] ts [of j] j(2) by blast
    with True show ?thesis
      by (simp add: genNewID_def Let_def ts)
  qed
qed

lemma genMany_returns:
  assumes "timeOffset s = Finite (of_int e)" and "\<forall>m. \<bar>clk m - e\<bar> \<le> 2 ^ 53"
    and "\<forall>k. \<exists>j>k. clk j \<noteq> clk k"
  shows "\<exists>ids s1 k1. genMany clk n s k = Some (Inr (ids, s1, k1))"
  using assms(1)
proof (induction n arbitrary: s k)
  case 0
  show ?case by simp
next
  case (Suc n)
  have "clk k - e \<noteq> lastTimestamp s
           \<or> lastSequence s + 1 \<le> maxSequence
           \<or> (\<exists>j>k. clk j - e \<noteq> lastTimestamp s)"
  proof (cases "clk k - e = lastTimestamp s")
    case True
    from assms(3) obtain j where "k < j" "clk j \<noteq> clk k"
      by blast
    with True have "k < j \<and> clk j - e \<noteq> lastTimestamp s"
      by auto
    then show ?thesis
      by blast
  next
    case False
    then show ?thesis by simp
  qed
  from genNewID_returns [OF Suc.prems assms(2) this] obtain i s1 k1 where
    call: "genNewID clk s k = Some (Inr (i, s1, k1))"
    by blast
  from genNewID_Inr_D [OF call] Suc.prems have "timeOffset s1 = Finite (of_int e)"
    by auto
  from Suc.IH [OF this, of k1] obtain ids s2 k2 where
    "genMany clk n s1 k1 = Some (Inr (ids, s2, k2))"
    by blast
  with call show ?case
    by simp
qed

subsection \<open>The example clocks are non-decreasing\<close>


lemma mono_steppedClock: "mono (steppedClock c m)"
  by (simp add: mono_def steppedClock_def div_le_mono)

lemma mono_frozenClock: "mono (frozenClock c)"
  by (simp add: mono_def frozenClock_def)

lemma floor_minus_1_rat: "\<lfloor>- 1 :: rat\<rfloor> = - 1"
  using floor_of_int [of "- 1", where ?'a = rat] by simp

lemmas example_defs = floor_minus_1_rat genNewID_def currentTimestamp_def number_sub_Finite roundDouble_int
  composeID_def bits_defs new_Snowflake_def exampleEnv_def
  number_and_def Number_def maxNodeID_def maxSequence_def tickClock_def steppedClock_def
  frozenClock_def

section \<open>The claims\<close>

subsection \<open>C1: identifiers of consecutive calls increase strictly\<close>

text \<open>
  C1. Take one generator object in any state it can reach, a wall clock that never goes
  back, and \<open>n\<close> calls of \<^verbatim>\<open>genNewID\<close> made one after the other, each returning
  before the next starts. Then every identifier is greater than all the identifiers
  returned before it: the list of results passes \<^verbatim>\<open>isMonotonic\<close>, and the \<open>n\<close> values
  are pairwise distinct. This holds for any epoch offset, integer or not, since rounding
  a difference to a double keeps the order. (On a clock that always moves on eventually
  the \<open>n\<close> calls do return: lemma \<open>genMany_returns\<close>.)
\<close>

theorem C1_strictly_increasing:
  assumes "reachable E clk s" and "mono clk"
    and "genMany clk n s k = Some (Inr (ids, s', k'))"
  shows "length ids = n \<and> isMonotonic ids \<and> distinct ids
         \<and> (\<forall>a b. a < b \<and> b < length ids \<longrightarrow> ids ! a < ids ! b)"
proof -
  from reachable_bounds [OF assms(1)] have b: "0 \<le> nodeID s" "nodeID s \<le> 4095"
    "- 1 \<le> lastSequence s" "lastSequence s \<le> 1023"
    by simp_all
  from assms(2) b assms(3) have sorted: "sorted_wrt (<) ids"
    by (rule genMany_sorted)
  then have "distinct ids"
    by (simp add: strict_sorted_iff)
  moreover from sorted have "\<forall>a b. a < b \<and> b < length ids \<longrightarrow> ids ! a < ids ! b"
    by (simp add: sorted_wrt_iff_nth_less)
  moreover from sorted have "isMonotonic ids"
    by (simp add: isMonotonic_iff_sorted_wrt)
  moreover have "length ids = n"
    using assms(3) by (rule genMany_length)
  ultimately show ?thesis
    by simp
qed

text \<open>
  Three calls on a fresh generator with node 4090 and epoch 100, the clock advancing
  every second reading: two identifiers in millisecond 0, one in millisecond 1.
\<close>

theorem C1_strictly_increasing_witness:
  "reachable exampleEnv (steppedClock 100 2)
     (new_Snowflake exampleEnv (Some (Finite 4090)) (Some (Finite 100)))
   \<and> mono (steppedClock 100 2)
   \<and> genMany (steppedClock 100 2) 3
        (new_Snowflake exampleEnv (Some (Finite 4090)) (Some (Finite 100))) 0
       = Some (Inr ([4188160, 4188161, 8382464],
               \<lparr> nodeID = 4090, timeOffset = Finite 100, lastTimestamp = 1, lastSequence = 0 \<rparr>, 3))
   \<and> isMonotonic [4188160, 4188161, 8382464]
   \<and> distinct [4188160, 4188161, 8382464 :: int]"
proof -
  have r: "reachable exampleEnv (steppedClock 100 2)
             (new_Snowflake exampleEnv (Some (Finite 4090)) (Some (Finite 100)))"
    by (rule reachable.fresh)
  have m: "mono (steppedClock 100 2)"
    by (rule mono_steppedClock)
  have g: "genMany (steppedClock 100 2) 3
             (new_Snowflake exampleEnv (Some (Finite 4090)) (Some (Finite 100))) 0
             = Some (Inr ([4188160, 4188161, 8382464],
                     \<lparr> nodeID = 4090, timeOffset = Finite 100, lastTimestamp = 1,
                        lastSequence = 0 \<rparr>, 3))"
    by (simp add: example_defs numeral_3_eq_3)
  from C1_strictly_increasing [OF r m g] have
    "isMonotonic [4188160, 4188161, 8382464] \<and> distinct [4188160, 4188161, 8382464 :: int]"
    by blast
  with r m g show ?thesis
    by blast
qed

subsection \<open>C2: a clock before the epoch\<close>

text \<open>
  C2. A call of \<^verbatim>\<open>genNewID\<close> made while the wall clock is earlier than the epoch offset
  must fail with an error instead of returning an identifier. The header comment of the
  source promises identifiers whose sign bit is always 0. The method does not keep this:
  it has no test of the sign of the timestamp. A generator created with node 1 and an
  epoch offset of 1700000000005, called when the clock shows 1700000000000, five
  milliseconds before the epoch, returns the negative identifier
  \<open>(-5 << 22) | (1 << 10) | 0\<close> and stores \<open>-5\<close> as the last timestamp.
\<close>

theorem C2_negative_timestamp_not_rejected:
  "tickClock 1700000000000 0 < 1700000000005
   \<and> genNewID (tickClock 1700000000000)
        (new_Snowflake exampleEnv (Some (Finite 1)) (Some (Finite 1700000000005))) 0
       = Some (Inr (- 20970496,
               \<lparr> nodeID = 1, timeOffset = Finite 1700000000005, lastTimestamp = - 5,
                  lastSequence = 0 \<rparr>, 1))
   \<and> (- 20970496 :: int) < 0"
  by (simp add: example_defs)

subsection \<open>C3: the bit layout\<close>

text \<open>
  C3 as stated: the timestamp is the 42-bit field in bits 62 to 21 and the node
  identifier the field in bits 20 to 10. The first call of a fresh generator with node
  4090 at timestamp 1 returns \<open>(1 << 22) | (4090 << 10)\<close>: bits 62 to 21 hold 3, not
  the timestamp 1, and bits 20 to 10 hold 2042, not the node identifier.
\<close>

theorem C3_counterexample:
  "genNewID (tickClock 2) (new_Snowflake exampleEnv (Some (Finite 4090)) (Some (Finite 1))) 0
     = Some (Inr (8382464,
             \<lparr> nodeID = 4090, timeOffset = Finite 1, lastTimestamp = 1, lastSequence = 0 \<rparr>, 1))
   \<and> take_bit 42 (drop_bit 21 (8382464 :: int)) = 3
   \<and> take_bit 42 (drop_bit 21 (8382464 :: int)) \<noteq> 1
   \<and> take_bit 11 (drop_bit 10 (8382464 :: int)) = 2042
   \<and> take_bit 11 (drop_bit 10 (8382464 :: int)) \<noteq> 4090"
  by (simp add: example_defs)

text \<open>
  C3 as amended. The shifts are 22 and 10. For a timestamp in \<open>[0, 2^42)\<close> the
  identifier has its 12-bit node identifier in bits 21 to 10 and its 10-bit sequence
  number in bits 9 to 0, and the timestamp starts at bit 22: bits 62 to 22 hold its low
  41 bits. For a timestamp below \<open>2^41\<close> these are the whole timestamp, and bit 63 is 0.
\<close>

theorem C3_bit_layout:
  assumes "reachable E clk s"
    and "genNewID clk s k = Some (Inr (i, s1, k1))"
    and "0 \<le> lastTimestamp s1" and "lastTimestamp s1 < 2 ^ 42"
  shows "take_bit 12 (drop_bit 10 i) = nodeID s1
         \<and> take_bit 10 i = lastSequence s1
         \<and> 0 \<le> nodeID s1 \<and> nodeID s1 \<le> 4095
         \<and> 0 \<le> lastSequence s1 \<and> lastSequence s1 \<le> 1023
         \<and> take_bit 41 (drop_bit 22 i) = take_bit 41 (lastTimestamp s1)
         \<and> (lastTimestamp s1 < 2 ^ 41 \<longrightarrow>
               \<not> bit i 63 \<and> take_bit 41 (drop_bit 22 i) = lastTimestamp s1)"
proof -
  from reachable_bounds [OF assms(1)] have b: "0 \<le> nodeID s" "nodeID s \<le> 4095"
    "- 1 \<le> lastSequence s"
    by simp_all
  from genNewID_bounds [OF b(3) assms(2)] have q: "0 \<le> lastSequence s1" "lastSequence s1 \<le> 1023"
    and n: "nodeID s1 = nodeID s"
    and i: "i = composeID (lastTimestamp s1) (nodeID s1) (lastSequence s1)"
    by simp_all
  have n1: "0 \<le> nodeID s1" "nodeID s1 \<le> 4095"
    using b n by simp_all
  have dr: "drop_bit 22 i = lastTimestamp s1"
    unfolding i using n1 q by (rule composeID_drop_22)
  have nd: "take_bit 12 (drop_bit 10 i) = nodeID s1"
    unfolding i using n1 q by (rule composeID_node)
  have sq: "take_bit 10 i = lastSequence s1"
    unfolding i using n1 q by (rule composeID_sequence)
  have low: "\<not> bit i 63 \<and> take_bit 41 (drop_bit 22 i) = lastTimestamp s1"
    if "lastTimestamp s1 < 2 ^ 41"
  proof -
    from that have t: "lastTimestamp s1 < 2199023255552"
      by simp
    have "0 \<le> i \<and> i < 9223372036854775808"
      unfolding i using assms(3) t n1 q by (rule composeID_below_2_63)
    then have "\<not> bit i 63"
      by (intro not_bit_63) simp_all
    moreover have "take_bit 41 (lastTimestamp s1) = lastTimestamp s1"
      using assms(3) that by (rule take_bit_int_eq_self)
    ultimately show ?thesis
      by (simp only: dr) simp
  qed
  from nd sq n1 q dr low show ?thesis
    by simp
qed

theorem C3_bit_layout_witness:
  "reachable exampleEnv (tickClock 2)
     (new_Snowflake exampleEnv (Some (Finite 4090)) (Some (Finite 1)))
   \<and> genNewID (tickClock 2) (new_Snowflake exampleEnv (Some (Finite 4090)) (Some (Finite 1))) 0
       = Some (Inr (8382464,
             \<lparr> nodeID = 4090, timeOffset = Finite 1, lastTimestamp = 1, lastSequence = 0 \<rparr>, 1))
   \<and> (0::int) \<le> 1 \<and> (1::int) < 2 ^ 42 \<and> (1::int) < 2 ^ 41
   \<and> take_bit 12 (drop_bit 10 (8382464 :: int)) = 4090
   \<and> take_bit 10 (8382464 :: int) = 0
   \<and> take_bit 41 (drop_bit 22 (8382464 :: int)) = 1
   \<and> \<not> bit (8382464 :: int) 63"
proof -
  let ?s1 = "\<lparr> nodeID = 4090, timeOffset = Finite 1, lastTimestamp = 1, lastSequence = 0 \<rparr>"
  have r: "reachable exampleEnv (tickClock 2)
             (new_Snowflake exampleEnv (Some (Finite 4090)) (Some (Finite 1)))"
    by (rule reachable.fresh)
  have g: "genNewID (tickClock 2) (new_Snowflake exampleEnv (Some (Finite 4090)) (Some (Finite 1))) 0
       = Some (Inr (8382464, ?s1, 1))"
    by (simp add: example_defs)
  have h: "0 \<le> lastTimestamp ?s1" "lastTimestamp ?s1 < 2 ^ 42"
    by simp_all
  have l: "lastTimestamp ?s1 < 2 ^ 41"
    by simp
  from C3_bit_layout [OF r g h] l have
    "take_bit 12 (drop_bit 10 (8382464 :: int)) = nodeID ?s1
     \<and> take_bit 10 (8382464 :: int) = lastSequence ?s1
     \<and> take_bit 41 (drop_bit 22 (8382464 :: int)) = lastTimestamp ?s1
     \<and> \<not> bit (8382464 :: int) 63"
    by blast
  with r g show ?thesis
    by simp
qed

text \<open>
  The amended claim says nothing about bit 63 of an identifier whose timestamp is
  \<open>2^41\<close> or more. The header comment of the source promises a sign bit that is always
  0, and there the method does not keep it: at timestamp \<open>2^41\<close> the identifier is
  \<open>2^63 + 1024\<close>.
\<close>

lemma sign_bit_set_example:
  "genNewID (tickClock 2199023255553)
     (new_Snowflake exampleEnv (Some (Finite 1)) (Some (Finite 1))) 0
     = Some (Inr (9223372036854776832,
             \<lparr> nodeID = 1, timeOffset = Finite 1, lastTimestamp = 2199023255552,
                lastSequence = 0 \<rparr>, 1))
   \<and> bit (9223372036854776832 :: int) 63"
proof -
  have "bit (9223372036854776832 :: int) 63"
    by (simp add: bit_iff_odd)
  then show ?thesis
    by (simp add: example_defs)
qed

subsection \<open>C4: composing and decoding\<close>

text \<open>
  Doubles have 53 bits of mantissa: the sum \<open>2^53 + 1\<close> is a tie between \<open>2^53\<close> and
  \<open>2^53 + 2\<close> and is rounded to \<open>2^53\<close>.
\<close>

lemma bitlen_2_53_plus_1: "bitlen 9007199254740993 = 54"
proof -
  have "bitlen 9007199254740993 \<le> 54"
    by (simp add: bitlen_le_iff_power)
  moreover have "54 \<le> bitlen 9007199254740993"
    by (simp add: bitlen_ge_iff_power)
  ultimately show ?thesis
    by (rule order_antisym)
qed

lemma roundHalfEven_tie_example: "roundHalfEven (9007199254740993 / 2) = 4503599627370496"
proof -
  have "\<lfloor>9007199254740993 / 2 :: rat\<rfloor> = 4503599627370496"
    by (simp add: floor_eq_iff)
  then show ?thesis
    by (simp add: roundHalfEven_def Let_def)
qed

lemma roundDouble_2_53_plus_1: "roundDouble 9007199254740993 = Finite 9007199254740992"
proof -
  define S where "S = SUBNORMAL_BITS"
  have sc: "(9007199254740993 :: rat) * 2 ^ S = of_int (9007199254740993 * 2 ^ S)"
    by simp
  have "\<bar>(of_int (9007199254740993 * 2 ^ S) :: rat)\<bar> = of_int (9007199254740993 * 2 ^ S)"
    by simp
  then have fl: "\<lfloor>\<bar>(of_int (9007199254740993 * 2 ^ S) :: rat)\<bar>\<rfloor> = 9007199254740993 * 2 ^ S"
    by (simp only: floor_of_int)
  have "bitlen (9007199254740993 * 2 ^ S) = bitlen 9007199254740993 + int S"
    by (rule bitlen_pow2) simp
  then have bl: "bitlen (9007199254740993 * 2 ^ S) = 54 + int S"
    by (simp only: bitlen_2_53_plus_1)
  have q: "quantum (of_int (9007199254740993 * 2 ^ S)) = 2 ^ Suc S"
    unfolding quantum_def fl bl by (simp add: nat_add_distrib)
  have "(of_int (9007199254740993 * 2 ^ S) :: rat) / of_int (2 ^ Suc S) = 9007199254740993 / 2"
    by simp
  then have "roundHalfEven (of_int (9007199254740993 * 2 ^ S) / of_int (2 ^ Suc S))
      = 4503599627370496"
    by (simp only: roundHalfEven_tie_example)
  then have "roundToGrid (of_int (9007199254740993 * 2 ^ S)) = of_int (2 ^ Suc S * 4503599627370496)"
    by (simp only: roundToGrid_def q)
  then have "roundDoubleValue 9007199254740993 = 9007199254740992"
    unfolding roundDoubleValue_def S_def [symmetric] sc by simp
  then show ?thesis
    by (simp add: roundDouble_def Let_def)
qed

text \<open>
  C4 as stated: for every epoch offset \<open>e\<close>, decoding the timestamp of a composed
  identifier with \<open>e\<close> gives \<open>t + e\<close>. \<^verbatim>\<open>getTimestampFromID\<close> tests its second argument
  with \<^verbatim>\<open>!timeOffset\<close>, so for \<open>e = 0\<close> it adds the default epoch instead: the
  identifier composed from timestamp 5 decodes to \<open>1672531200005\<close>, not to \<open>5 + 0\<close>.
  And the sum is a double: the identifier composed from timestamp 1 decodes with
  \<open>e = 2^53\<close> to \<open>2^53\<close>, not to \<open>1 + 2^53\<close>.
\<close>

theorem C4_counterexample:
  "getTimestampFromID exampleEnv (composeID 5 3 2) (Some (Finite 0)) = Finite 1672531200005
   \<and> getTimestampFromID exampleEnv (composeID 5 3 2) (Some (Finite 0)) \<noteq> Finite (5 + 0)
   \<and> getTimestampFromID exampleEnv (composeID 1 3 2) (Some (Finite 9007199254740992))
       = Finite 9007199254740992
   \<and> getTimestampFromID exampleEnv (composeID 1 3 2) (Some (Finite 9007199254740992))
       \<noteq> Finite (1 + 9007199254740992)"
  by (simp add: example_defs getTimestampFromID_def roundDouble_2_53_plus_1)

text \<open>
  C4 as amended. For every timestamp \<open>t\<close> in \<open>[0, 2^42)\<close>, node identifier \<open>n\<close> in
  \<open>[0, 4095]\<close> and sequence number \<open>q\<close> in \<open>[0, 1023]\<close>, the identifier
  \<open>(t << 22) | (n << 10) | q\<close> decodes to the node identifier \<open>n\<close> and the sequence
  number \<open>q\<close>, and with every epoch offset other than 0 and \<^verbatim>\<open>NaN\<close> its timestamp
  decodes to the double sum of \<open>t\<close> and the offset. For every integer offset \<open>e\<close> other
  than 0 with \<open>|e| + 2^42 \<le> 2^53\<close> that sum is \<open>t + e\<close> itself. With the offset 0 or
  \<^verbatim>\<open>NaN\<close>, or with none, the timestamp decodes to \<open>t\<close> plus the default epoch, when
  that is within the same bound.
\<close>

theorem C4_roundtrip:
  assumes "0 \<le> t" "t < 2 ^ 42" "0 \<le> n" "n \<le> 4095" "0 \<le> q" "q \<le> 1023"
    and "e \<noteq> 0" and "\<bar>e\<bar> + 2 ^ 42 \<le> 2 ^ 53"
  shows "getTimestampFromID E (composeID t n q) (Some (Finite (of_int e))) = Finite (of_int (t + e))
         \<and> getNodeIDFromID (composeID t n q) = n
         \<and> getSequenceFromID (composeID t n q) = q
         \<and> (\<forall>x. \<not> falsy (Some x) \<longrightarrow>
               getTimestampFromID E (composeID t n q) (Some x) = number_add (Finite (of_int t)) x)
         \<and> (\<bar>defaultTimeOffset E\<bar> + 2 ^ 42 \<le> 2 ^ 53 \<longrightarrow>
               getTimestampFromID E (composeID t n q) (Some (Finite 0))
                 = Finite (of_int (t + defaultTimeOffset E))
               \<and> getTimestampFromID E (composeID t n q) (Some NaN)
                   = Finite (of_int (t + defaultTimeOffset E))
               \<and> getTimestampFromID E (composeID t n q) None
                   = Finite (of_int (t + defaultTimeOffset E)))"
proof -
  have "drop_bit 22 (composeID t n q) = t"
    using assms(3-6) by (rule composeID_drop_22)
  moreover have "take_bit 42 t = t"
    using assms(1,2) by (rule take_bit_int_eq_self)
  ultimately have ts: "take_bit EPOCH_BITS (drop_bit (TOTAL_BITS - EPOCH_BITS) (composeID t n q)) = t"
    by (simp add: bits_defs)
  have "\<bar>t\<bar> \<le> 2 ^ 53"
    using assms(1,2) by simp
  then have nt: "Number t = Finite (of_int t)"
    by (rule Number_exact)
  have sum: "number_add (Finite (of_int t)) (Finite (of_int d)) = Finite (of_int (t + d))"
    if "\<bar>d\<bar> + 2 ^ 42 \<le> 2 ^ 53" for d
  proof -
    from that assms(1,2) have "\<bar>t + d\<bar> \<le> 2 ^ 53"
      by simp
    then show ?thesis
      by (rule number_add_exact)
  qed
  have gen: "getTimestampFromID E (composeID t n q) (Some x) = number_add (Finite (of_int t)) x"
    if "\<not> falsy (Some x)" for x
    using that by (simp only: getTimestampFromID_def Let_def ts nt if_False option.case)
  have e0: "\<not> falsy (Some (Finite (of_int e)))"
    using assms(7) by simp
  have "getTimestampFromID E (composeID t n q) (Some (Finite (of_int e))) = Finite (of_int (t + e))"
    by (simp only: gen [OF e0] sum [OF assms(8)])
  moreover have "getNodeIDFromID (composeID t n q) = n"
    unfolding getNodeIDFromID_eq using assms(3-6) by (rule composeID_node)
  moreover have "getSequenceFromID (composeID t n q) = q"
    unfolding getSequenceFromID_eq using assms(3-6) by (rule composeID_sequence)
  moreover have "getTimestampFromID E (composeID t n q) (Some (Finite 0))
                 = Finite (of_int (t + defaultTimeOffset E))
               \<and> getTimestampFromID E (composeID t n q) (Some NaN)
                   = Finite (of_int (t + defaultTimeOffset E))
               \<and> getTimestampFromID E (composeID t n q) None
                   = Finite (of_int (t + defaultTimeOffset E))"
    if "\<bar>defaultTimeOffset E\<bar> + 2 ^ 42 \<le> 2 ^ 53"
    by (simp only: getTimestampFromID_def Let_def ts nt falsy.simps if_True sum [OF that] simp_thms)
  ultimately show ?thesis
    using gen by blast
qed

text \<open>
  The boundary values of the claim: \<open>t = 0\<close> with \<open>n = 4095\<close>, \<open>q = 1023\<close>, decoded
  with the offsets 100, \<open>1/2\<close> and 0.
\<close>

theorem C4_roundtrip_witness:
  "(100::int) \<noteq> 0 \<and> \<bar>100 :: int\<bar> + 2 ^ 42 \<le> 2 ^ 53
   \<and> \<bar>defaultTimeOffset exampleEnv\<bar> + 2 ^ 42 \<le> 2 ^ 53
   \<and> \<not> falsy (Some (Finite (1 / 2)))
   \<and> getTimestampFromID exampleEnv (composeID 0 4095 1023) (Some (Finite 100)) = Finite 100
   \<and> getNodeIDFromID (composeID 0 4095 1023) = 4095
   \<and> getSequenceFromID (composeID 0 4095 1023) = 1023
   \<and> getTimestampFromID exampleEnv (composeID 0 4095 1023) (Some (Finite (1 / 2))) = Finite (1 / 2)
   \<and> getTimestampFromID exampleEnv (composeID 0 4095 1023) (Some (Finite 0))
       = Finite 1672531200000"
proof -
  have d: "defaultTimeOffset exampleEnv = 1672531200000"
    by (simp add: exampleEnv_def)
  have h: "(0::int) \<le> 0" "(0::int) < 2 ^ 42" "(0::int) \<le> 4095" "(4095::int) \<le> 4095"
    "(0::int) \<le> 1023" "(1023::int) \<le> 1023" "(100::int) \<noteq> 0" "\<bar>100 :: int\<bar> + 2 ^ 42 \<le> 2 ^ 53"
    by simp_all
  have b: "\<bar>defaultTimeOffset exampleEnv\<bar> + 2 ^ 42 \<le> 2 ^ 53"
    by (simp add: d)
  have f: "\<not> falsy (Some (Finite (1 / 2)))"
    by simp
  have half: "number_add (Finite (of_int 0)) (Finite (1 / 2)) = Finite (1 / 2)"
    by (simp add: roundDouble_half)
  from C4_roundtrip [OF h, of exampleEnv] b f have
    "getTimestampFromID exampleEnv (composeID 0 4095 1023) (Some (Finite (of_int 100)))
       = Finite (of_int (0 + 100))
     \<and> getNodeIDFromID (composeID 0 4095 1023) = 4095
     \<and> getSequenceFromID (composeID 0 4095 1023) = 1023
     \<and> getTimestampFromID exampleEnv (composeID 0 4095 1023) (Some (Finite (1 / 2)))
         = number_add (Finite (of_int 0)) (Finite (1 / 2))
     \<and> getTimestampFromID exampleEnv (composeID 0 4095 1023) (Some (Finite 0))
         = Finite (of_int (0 + defaultTimeOffset exampleEnv))"
    by blast
  with b half show ?thesis
    by (simp add: d)
qed

subsection \<open>C5: the sequence numbers of a millisecond are used up\<close>

text \<open>
  While the clock keeps showing the millisecond of the last identifier the call does not
  return, and it does not fail either: a clock that stands still for ever keeps it
  waiting for ever.
\<close>

lemma genNewID_waits_forever:
  assumes "currentTimestamp clk s k = Inr (lastTimestamp s)"
    and "lastSequence s + 1 > maxSequence"
    and "\<forall>m>k. currentTimestamp clk s m = Inr (lastTimestamp s)"
  shows "genNewID clk s k = None"
proof -
  have "\<forall>i. Suc k \<le> i \<longrightarrow> currentTimestamp clk s i = Inr (lastTimestamp s)"
    using assms(3) by (simp add: Suc_le_eq)
  then have "waitLoop clk s (Suc k) = None"
    by (rule waitLoop_frozen)
  with assms(1,2) show ?thesis
    by (simp add: genNewID_def Let_def)
qed

















subsection \<open>C6: the node identifier given to the constructor\<close>

text \<open>
  C6 as stated: for every node identifier supplied, the stored \<^verbatim>\<open>nodeID\<close> is the
  supplied value masked to its low 12 bits. The constructor tests \<^verbatim>\<open>!nodeID\<close>, so a
  supplied 0 is taken as absent: on a host whose derived number is 7 the stored value is
  7, not \<open>0 & 0xFFF = 0\<close>. The same happens to a supplied \<^verbatim>\<open>NaN\<close>.
\<close>

theorem C6_counterexample:
  "nodeID (new_Snowflake exampleEnv (Some (Finite 0)) (Some (Finite 100))) = 7
   \<and> nodeID (new_Snowflake exampleEnv (Some (Finite 0)) (Some (Finite 100))) \<noteq> 0 AND 4095
   \<and> nodeID (new_Snowflake exampleEnv (Some NaN) (Some (Finite 100))) = 7"
  by (simp add: example_defs)

text \<open>
  C6 as amended. For every number other than 0 and \<^verbatim>\<open>NaN\<close> that is supplied as node
  identifier, in range or not, negative or not, the constructor stores
  \<^verbatim>\<open>nodeID & 0xFFF\<close>: the low 12 bits of the value converted to a 32-bit integer, a
  number in \<open>[0, 4095]\<close>, which for an integer \<open>n\<close> is \<open>n AND 4095\<close>. The same holds
  when the generator is created through \<^verbatim>\<open>Snowflake.get\<close>. The constructor has no
  failing branch.
\<close>

theorem C6_nodeID_masked:
  assumes "\<not> falsy (Some x)"
  shows "nodeID (new_Snowflake E (Some x) t) = number_and x (Finite 4095)
         \<and> nodeID (new_Snowflake E (Some x) t) = take_bit 12 (ToInt32 x)
         \<and> 0 \<le> nodeID (new_Snowflake E (Some x) t)
         \<and> nodeID (new_Snowflake E (Some x) t) \<le> 4095
         \<and> (\<forall>n. x = Finite (of_int n) \<longrightarrow> nodeID (new_Snowflake E (Some x) t) = n AND 4095)
         \<and> nodeID (fst (get E (Some \<lparr> opts_nodeID = Some x, opts_timeOffset = t \<rparr>) None))
             = number_and x (Finite 4095)"
proof -
  have m: "Number maxNodeID = Finite 4095"
    using Number_exact [of 4095] by (simp add: maxNodeID_eq)
  have s: "nodeID (new_Snowflake E (Some x) t) = number_and x (Number maxNodeID)"
    using assms by (simp add: new_Snowflake_def Let_def)
  then have a: "nodeID (new_Snowflake E (Some x) t) = number_and x (Finite 4095)"
    by (simp only: m)
  from s have b: "nodeID (new_Snowflake E (Some x) t) = take_bit 12 (ToInt32 x)"
    by (simp only: number_and_maxNodeID)
  have c: "0 \<le> nodeID (new_Snowflake E (Some x) t)
      \<and> nodeID (new_Snowflake E (Some x) t) \<le> 4095"
    using new_Snowflake_bounds [of E "Some x" t] by simp
  have d: "nodeID (new_Snowflake E (Some x) t) = n AND 4095" if "x = Finite (of_int n)" for n
    using s unfolding that by (simp only: number_and_maxNodeID_int)
  have "fst (get E (Some \<lparr> opts_nodeID = Some x, opts_timeOffset = t \<rparr>) None)
          = new_Snowflake E (Some x) t"
    by (simp add: get_def Let_def)
  with a b c d show ?thesis
    by simp
qed

text \<open>The node identifier 4097 is stored as 1.\<close>

theorem C6_nodeID_masked_witness:
  "\<not> falsy (Some (Finite 4097))
   \<and> nodeID (new_Snowflake exampleEnv (Some (Finite 4097)) None) = 4097 AND 4095
   \<and> nodeID (new_Snowflake exampleEnv (Some (Finite 4097)) None) = 1"
proof -
  have h: "\<not> falsy (Some (Finite 4097))"
    by simp
  have "nodeID (new_Snowflake exampleEnv (Some (Finite 4097)) None) = 1"
    by (simp add: example_defs)
  moreover have "Finite 4097 = Finite (of_int 4097)"
    by simp
  moreover note C6_nodeID_masked [OF h, of exampleEnv None]
  ultimately show ?thesis
    using h by blast
qed

text \<open>The node identifier \<open>4097.5\<close> is converted to the integer 4097 and stored as 1.\<close>

lemma ToInt32_fraction_example: "ToInt32 (Finite (8195 / 2)) = 4097"
proof -
  have "\<lfloor>8195 / 2 :: rat\<rfloor> = 4097"
    by (simp add: floor_eq_iff)
  then show ?thesis
    by simp
qed

lemma new_Snowflake_fraction_example:
  "nodeID (new_Snowflake exampleEnv (Some (Finite (8195 / 2))) None) = 1"
proof -
  have "number_and (Finite (8195 / 2)) (Number maxNodeID) = take_bit 12 (4097 :: int)"
    by (simp only: number_and_maxNodeID ToInt32_fraction_example)
  then show ?thesis
    by (simp add: new_Snowflake_def Let_def)
qed

text \<open>The node identifier \<open>-1\<close> is stored as 4095.\<close>

lemma new_Snowflake_negative_example:
  "nodeID (new_Snowflake exampleEnv (Some (Finite (- 1))) None) = 4095"
proof -
  have "number_and (Finite (of_int (- 1))) (Number maxNodeID) = - 1 AND 4095"
    by (rule number_and_maxNodeID_int)
  then show ?thesis
    by (simp add: new_Snowflake_def Let_def)
qed

subsection \<open>C7: ranges of node identifier and sequence number\<close>

text \<open>
  C7. In every state that a generator can reach its node identifier lies in
  \<open>[0, 4095]\<close>. After every call of \<^verbatim>\<open>genNewID\<close> that returns, the stored last sequence
  number lies in \<open>[0, 1023]\<close> and the node identifier is unchanged; the identifier
  returned decodes to that node identifier and that sequence number, so its two fields
  are at most 4095 and 1023.
\<close>

theorem C7_field_ranges:
  assumes "reachable E clk s"
  shows "0 \<le> nodeID s \<and> nodeID s \<le> 4095
         \<and> (\<forall>k i s1 k1. genNewID clk s k = Some (Inr (i, s1, k1)) \<longrightarrow>
               0 \<le> lastSequence s1 \<and> lastSequence s1 \<le> 1023
               \<and> nodeID s1 = nodeID s
               \<and> getNodeIDFromID i = nodeID s \<and> getNodeIDFromID i \<le> 4095
               \<and> getSequenceFromID i = lastSequence s1 \<and> getSequenceFromID i \<le> 1023)"
proof -
  from reachable_bounds [OF assms] have b: "0 \<le> nodeID s" "nodeID s \<le> 4095"
    "- 1 \<le> lastSequence s"
    by simp_all
  have "0 \<le> lastSequence s1 \<and> lastSequence s1 \<le> 1023
               \<and> nodeID s1 = nodeID s
               \<and> getNodeIDFromID i = nodeID s \<and> getNodeIDFromID i \<le> 4095
               \<and> getSequenceFromID i = lastSequence s1 \<and> getSequenceFromID i \<le> 1023"
    if call: "genNewID clk s k = Some (Inr (i, s1, k1))" for k i s1 k1
  proof -
    from genNewID_bounds [OF b(3) call] have q: "0 \<le> lastSequence s1" "lastSequence s1 \<le> 1023"
      and n: "nodeID s1 = nodeID s"
      and i: "i = composeID (lastTimestamp s1) (nodeID s) (lastSequence s1)"
      by simp_all
    have "getNodeIDFromID i = nodeID s"
      unfolding getNodeIDFromID_eq i using b(1,2) q by (rule composeID_node)
    moreover have "getSequenceFromID i = lastSequence s1"
      unfolding getSequenceFromID_eq i using b(1,2) q by (rule composeID_sequence)
    ultimately show ?thesis
      using q n b by simp
  qed
  with b show ?thesis
    by blast
qed

theorem C7_field_ranges_witness:
  "reachable exampleEnv (tickClock 100)
     (new_Snowflake exampleEnv (Some (Finite 4090)) (Some (Finite 100)))
   \<and> nodeID (new_Snowflake exampleEnv (Some (Finite 4090)) (Some (Finite 100))) \<le> 4095
   \<and> genNewID (tickClock 100) (new_Snowflake exampleEnv (Some (Finite 4090)) (Some (Finite 100))) 0
       = Some (Inr (4188160,
               \<lparr> nodeID = 4090, timeOffset = Finite 100, lastTimestamp = 0, lastSequence = 0 \<rparr>, 1))
   \<and> getNodeIDFromID 4188160 = 4090 \<and> getNodeIDFromID 4188160 \<le> 4095
   \<and> getSequenceFromID 4188160 = 0 \<and> getSequenceFromID 4188160 \<le> 1023"
proof -
  let ?s1 = "\<lparr> nodeID = 4090, timeOffset = Finite 100, lastTimestamp = 0, lastSequence = 0 \<rparr>"
  have r: "reachable exampleEnv (tickClock 100)
             (new_Snowflake exampleEnv (Some (Finite 4090)) (Some (Finite 100)))"
    by (rule reachable.fresh)
  have g: "genNewID (tickClock 100)
             (new_Snowflake exampleEnv (Some (Finite 4090)) (Some (Finite 100))) 0
       = Some (Inr (4188160, ?s1, 1))"
    by (simp add: example_defs)
  have n: "nodeID (new_Snowflake exampleEnv (Some (Finite 4090)) (Some (Finite 100))) = 4090"
    by (simp add: example_defs)
  from C7_field_ranges [OF r] g have
    "nodeID (new_Snowflake exampleEnv (Some (Finite 4090)) (Some (Finite 100))) \<le> 4095
     \<and> getNodeIDFromID 4188160
         = nodeID (new_Snowflake exampleEnv (Some (Finite 4090)) (Some (Finite 100)))
     \<and> getNodeIDFromID 4188160 \<le> 4095
     \<and> getSequenceFromID 4188160 = lastSequence ?s1
     \<and> getSequenceFromID 4188160 \<le> 1023"
    by blast
  with r g n show ?thesis
    by simp
qed

subsection \<open>C8: the first call on a fresh generator\<close>

text \<open>
  C8 as stated: for every fresh generator the first call of \<^verbatim>\<open>genNewID\<close> returns an
  identifier. A generator created with the epoch offset \<open>1/2\<close> and called when the
  clock shows 100 computes the difference \<open>99.5\<close>, and the conversion of that to a
  bigint throws a \<^verbatim>\<open>RangeError\<close>: the call returns no identifier.
\<close>

lemma floor_199_half: "\<lfloor>199 / 2 :: rat\<rfloor> = 99"
  by (simp add: floor_eq_iff)

theorem C8_counterexample:
  "currentTimestamp (tickClock 100)
     (new_Snowflake exampleEnv (Some (Finite 1)) (Some (Finite (1 / 2)))) 0 = Inl RangeError
   \<and> genNewID (tickClock 100)
       (new_Snowflake exampleEnv (Some (Finite 1)) (Some (Finite (1 / 2)))) 0
       = Some (Inl RangeError)"
  by (simp add: example_defs roundDouble_half floor_199_half)

text \<open>
  C8 as amended. Take a fresh generator, whatever the arguments of the constructor. If
  the difference between the clock and the epoch offset at the first call is a finite
  integer, as it is for every integer offset with a difference of at most \<open>2^53\<close> in
  magnitude, the first call of \<^verbatim>\<open>genNewID\<close> returns after one clock reading, and the
  identifier it returns has sequence number 0: when the first timestamp is 0, the
  initial \<^verbatim>\<open>lastTimestamp\<close>, the call takes the branch that increments the sequence
  number, from the initial \<open>-1\<close> to 0; otherwise it takes the branch that resets it. If
  the difference is not a finite integer, the call throws the \<^verbatim>\<open>RangeError\<close> of the
  conversion.
\<close>

theorem C8_first_call_sequence_zero:
  "(\<forall>ts. currentTimestamp clk (new_Snowflake E n t) k = Inr ts \<longrightarrow>
      (\<exists>i s1. genNewID clk (new_Snowflake E n t) k = Some (Inr (i, s1, Suc k))
         \<and> getSequenceFromID i = 0
         \<and> lastSequence s1 = 0
         \<and> lastTimestamp s1 = ts
         \<and> i = composeID ts (nodeID (new_Snowflake E n t)) 0))
   \<and> (\<forall>e. timeOffset (new_Snowflake E n t) = Finite (of_int e) \<and> \<bar>clk k - e\<bar> \<le> 2 ^ 53 \<longrightarrow>
        currentTimestamp clk (new_Snowflake E n t) k = Inr (clk k - e))
   \<and> (\<forall>x. currentTimestamp clk (new_Snowflake E n t) k = Inl x \<longrightarrow>
        genNewID clk (new_Snowflake E n t) k = Some (Inl x))"
proof -
  define s where "s = new_Snowflake E n t"
  have b: "0 \<le> nodeID s" "nodeID s \<le> 4095" "lastSequence s = - 1" "lastTimestamp s = 0"
    using new_Snowflake_bounds [of E n t] by (simp_all add: s_def)
  have ret: "\<exists>i s1. genNewID clk s k = Some (Inr (i, s1, Suc k))
         \<and> getSequenceFromID i = 0 \<and> lastSequence s1 = 0 \<and> lastTimestamp s1 = ts
         \<and> i = composeID ts (nodeID s) 0"
    if c: "currentTimestamp clk s k = Inr ts" for ts
  proof -
    have call: "genNewID clk s k = Some (Inr (composeID ts (nodeID s) 0,
        s\<lparr> lastTimestamp := ts, lastSequence := 0 \<rparr>, Suc k))"
    proof (cases "ts = lastTimestamp s")
      case True
      with b(3) c show ?thesis
        by (simp add: genNewID_def Let_def maxSequence_eq)
    next
      case False
      with c show ?thesis
        by (simp add: genNewID_def Let_def)
    qed
    have q0: "(0::int) \<le> 0" "(0::int) \<le> 1023"
      by simp_all
    have "getSequenceFromID (composeID ts (nodeID s) 0) = 0"
      unfolding getSequenceFromID_eq using b(1,2) q0 by (rule composeID_sequence)
    with call show ?thesis
      by simp
  qed
  have int: "currentTimestamp clk s k = Inr (clk k - e)"
    if "timeOffset s = Finite (of_int e) \<and> \<bar>clk k - e\<bar> \<le> 2 ^ 53" for e
    using that by (intro currentTimestamp_exact) simp_all
  have thr: "genNewID clk s k = Some (Inl x)" if "currentTimestamp clk s k = Inl x" for x
    using that by (simp add: genNewID_def)
  from ret int thr show ?thesis
    unfolding s_def by blast
qed

text \<open>
  The two branches at concrete inputs: the clock at the epoch, so that the first
  timestamp is 0, and the clock one millisecond after it.
\<close>

theorem C8_first_call_sequence_zero_witness:
  "timeOffset (new_Snowflake exampleEnv (Some (Finite 4090)) (Some (Finite 100)))
     = Finite (of_int 100)
   \<and> \<bar>frozenClock 100 0 - 100\<bar> \<le> 2 ^ 53
   \<and> currentTimestamp (frozenClock 100)
       (new_Snowflake exampleEnv (Some (Finite 4090)) (Some (Finite 100))) 0 = Inr 0
   \<and> (\<exists>i s1. genNewID (frozenClock 100)
         (new_Snowflake exampleEnv (Some (Finite 4090)) (Some (Finite 100))) 0
           = Some (Inr (i, s1, Suc 0))
         \<and> getSequenceFromID i = 0 \<and> lastSequence s1 = 0 \<and> lastTimestamp s1 = 0)"
proof -
  let ?s = "new_Snowflake exampleEnv (Some (Finite 4090)) (Some (Finite 100))"
  note t = C8_first_call_sequence_zero [of "frozenClock 100" exampleEnv "Some (Finite 4090)"
      "Some (Finite 100)" 0]
  have o: "timeOffset ?s = Finite (of_int 100)"
    by (simp add: new_Snowflake_def Let_def)
  have r: "\<bar>frozenClock 100 0 - 100\<bar> \<le> 2 ^ 53"
    by (simp add: frozenClock_def)
  from t o r have "currentTimestamp (frozenClock 100) ?s 0 = Inr (frozenClock 100 0 - 100)"
    by blast
  then have c: "currentTimestamp (frozenClock 100) ?s 0 = Inr 0"
    by (simp add: frozenClock_def)
  with t have "\<exists>i s1. genNewID (frozenClock 100) ?s 0 = Some (Inr (i, s1, Suc 0))
         \<and> getSequenceFromID i = 0 \<and> lastSequence s1 = 0 \<and> lastTimestamp s1 = 0"
    by blast
  with o r c show ?thesis
    by blast
qed

lemma first_call_same_timestamp_example:
  "genNewID (frozenClock 100) (new_Snowflake exampleEnv (Some (Finite 4090)) (Some (Finite 100))) 0
     = Some (Inr (4188160,
             \<lparr> nodeID = 4090, timeOffset = Finite 100, lastTimestamp = 0, lastSequence = 0 \<rparr>, 1))
   \<and> getSequenceFromID 4188160 = 0"
  by (simp add: example_defs getSequenceFromID_def)

lemma first_call_new_timestamp_example:
  "genNewID (frozenClock 101) (new_Snowflake exampleEnv (Some (Finite 4090)) (Some (Finite 100))) 0
     = Some (Inr (8382464,
             \<lparr> nodeID = 4090, timeOffset = Finite 100, lastTimestamp = 1, lastSequence = 0 \<rparr>, 1))
   \<and> getSequenceFromID 8382464 = 0"
  by (simp add: example_defs getSequenceFromID_def)

subsection \<open>C9: zero arguments count as absent\<close>

text \<open>
  C9. A generator created through \<^verbatim>\<open>Snowflake.get\<close> with \<^verbatim>\<open>nodeID: 0\<close> is the generator
  created with no \<^verbatim>\<open>nodeID\<close> at all: its node identifier is the number derived from
  the host, masked to 12 bits as every node identifier is. One created with
  \<^verbatim>\<open>timeOffset: 0\<close> is the generator created with no \<^verbatim>\<open>timeOffset\<close>: its epoch is the
  default epoch.
\<close>

theorem C9_zero_arguments_replaced:
  "fst (get E (Some \<lparr> opts_nodeID = Some (Finite 0), opts_timeOffset = t \<rparr>) None)
     = fst (get E (Some \<lparr> opts_nodeID = None, opts_timeOffset = t \<rparr>) None)
   \<and> nodeID (fst (get E (Some \<lparr> opts_nodeID = Some (Finite 0), opts_timeOffset = t \<rparr>) None))
       = machineNodeID E AND 4095
   \<and> fst (get E (Some \<lparr> opts_nodeID = n, opts_timeOffset = Some (Finite 0) \<rparr>) None)
       = fst (get E (Some \<lparr> opts_nodeID = n, opts_timeOffset = None \<rparr>) None)
   \<and> timeOffset (fst (get E (Some \<lparr> opts_nodeID = n, opts_timeOffset = Some (Finite 0) \<rparr>) None))
       = Finite (of_int (defaultTimeOffset E))"
  by (simp add: get_def new_Snowflake_def Let_def number_and_maxNodeID_int)

lemma get_zero_arguments_example:
  "fst (get exampleEnv (Some \<lparr> opts_nodeID = Some (Finite 0), opts_timeOffset = Some (Finite 0) \<rparr>) None)
     = \<lparr> nodeID = 7, timeOffset = Finite 1672531200000, lastTimestamp = 0, lastSequence = - 1 \<rparr>"
  by (simp add: get_def Let_def example_defs)

subsection \<open>C10: one instance\<close>

text \<open>
  C10. The first call of \<^verbatim>\<open>Snowflake.get\<close> stores the generator it creates in the static
  field. Every call that finds the field set, whatever its options, returns the
  generator held there and leaves the field as it is; in particular a second call
  right after the first returns the generator of the first. Calls of \<^verbatim>\<open>genNewID\<close> in
  between change neither \<^verbatim>\<open>nodeID\<close> nor \<^verbatim>\<open>timeOffset\<close> of that generator, so these
  stay those of the instance created first.
\<close>

theorem C10_get_returns_first_instance:
  "snd (get E opts1 None) = Some (fst (get E opts1 None))
   \<and> get E opts2 (Some s) = (s, Some s)
   \<and> get E opts2 (snd (get E opts1 None)) = (fst (get E opts1 None), snd (get E opts1 None))
   \<and> (\<forall>clk k i s1 k1. genNewID clk s k = Some (Inr (i, s1, k1)) \<longrightarrow>
         nodeID (fst (get E opts2 (Some s1))) = nodeID s
         \<and> timeOffset (fst (get E opts2 (Some s1))) = timeOffset s)"
proof -
  have a: "snd (get E opts1 None) = Some (fst (get E opts1 None))"
    by (simp add: get_def Let_def)
  have b: "get E opts2 (Some s') = (s', Some s')" for s'
    by (simp add: get_def)
  have c: "get E opts2 (snd (get E opts1 None)) = (fst (get E opts1 None), snd (get E opts1 None))"
    unfolding a by (simp add: get_def)
  have d: "nodeID (fst (get E opts2 (Some s1))) = nodeID s
         \<and> timeOffset (fst (get E opts2 (Some s1))) = timeOffset s"
    if "genNewID clk s k = Some (Inr (i, s1, k1))" for clk k i s1 k1
  proof -
    from genNewID_Inr_D [OF that] obtain q u where
      "s1 = s\<lparr> lastTimestamp := u, lastSequence := q \<rparr>"
      by blast
    then show ?thesis
      by (simp add: b)
  qed
  from a b c d show ?thesis
    by blast
qed

theorem C10_get_returns_first_instance_witness:
  "get exampleEnv (Some \<lparr> opts_nodeID = Some (Finite 5), opts_timeOffset = Some (Finite 200) \<rparr>)
     (snd (get exampleEnv
        (Some \<lparr> opts_nodeID = Some (Finite 4090), opts_timeOffset = Some (Finite 100) \<rparr>) None))
     = (\<lparr> nodeID = 4090, timeOffset = Finite 100, lastTimestamp = 0, lastSequence = - 1 \<rparr>,
        Some \<lparr> nodeID = 4090, timeOffset = Finite 100, lastTimestamp = 0, lastSequence = - 1 \<rparr>)
   \<and> genNewID (tickClock 100)
        \<lparr> nodeID = 4090, timeOffset = Finite 100, lastTimestamp = 0, lastSequence = - 1 \<rparr> 0
       = Some (Inr (4188160,
               \<lparr> nodeID = 4090, timeOffset = Finite 100, lastTimestamp = 0, lastSequence = 0 \<rparr>, 1))
   \<and> nodeID (fst (get exampleEnv
        (Some \<lparr> opts_nodeID = Some (Finite 5), opts_timeOffset = Some (Finite 200) \<rparr>)
        (Some \<lparr> nodeID = 4090, timeOffset = Finite 100, lastTimestamp = 0, lastSequence = 0 \<rparr>)))
       = 4090
   \<and> timeOffset (fst (get exampleEnv
        (Some \<lparr> opts_nodeID = Some (Finite 5), opts_timeOffset = Some (Finite 200) \<rparr>)
        (Some \<lparr> nodeID = 4090, timeOffset = Finite 100, lastTimestamp = 0, lastSequence = 0 \<rparr>)))
       = Finite 100"
proof -
  let ?o1 = "Some \<lparr> opts_nodeID = Some (Finite 4090), opts_timeOffset = Some (Finite 100) \<rparr>"
  let ?o2 = "Some \<lparr> opts_nodeID = Some (Finite 5), opts_timeOffset = Some (Finite 200) \<rparr>"
  let ?s = "\<lparr> nodeID = 4090, timeOffset = Finite 100, lastTimestamp = 0, lastSequence = - 1 \<rparr>"
  let ?s1 = "\<lparr> nodeID = 4090, timeOffset = Finite 100, lastTimestamp = 0, lastSequence = 0 \<rparr>"
  have f: "get exampleEnv ?o1 None = (?s, Some ?s)"
    by (simp add: get_def Let_def example_defs)
  have g: "genNewID (tickClock 100) ?s 0 = Some (Inr (4188160, ?s1, 1))"
    by (simp add: example_defs)
  note t = C10_get_returns_first_instance [of exampleEnv ?o1 ?o2 ?s]
  from t have "get exampleEnv ?o2 (snd (get exampleEnv ?o1 None))
      = (fst (get exampleEnv ?o1 None), snd (get exampleEnv ?o1 None))"
    by (elim conjE)
  then have c1: "get exampleEnv ?o2 (snd (get exampleEnv ?o1 None)) = (?s, Some ?s)"
    unfolding f by simp
  from t have "\<forall>clk k i s1 k1. genNewID clk ?s k = Some (Inr (i, s1, k1)) \<longrightarrow>
         nodeID (fst (get exampleEnv ?o2 (Some s1))) = nodeID ?s
         \<and> timeOffset (fst (get exampleEnv ?o2 (Some s1))) = timeOffset ?s"
    by (elim conjE)
  with g have "nodeID (fst (get exampleEnv ?o2 (Some ?s1))) = nodeID ?s
         \<and> timeOffset (fst (get exampleEnv ?o2 (Some ?s1))) = timeOffset ?s"
    by blast
  with c1 g show ?thesis
    by simp
qed


end
